theory Spec2Isabelle
  imports Main "HOL-Library.Signed_Division" "HOL-Library.Sublist"
begin

section \<open>The direct-to-S3 upload job of the Forge data-management client\<close>

text \<open>
  The development embeds the Go package \<open>dm\<close>: the upload job (\<open>newUploadJob\<close>,
  \<open>uploadFile\<close>, \<open>getParts\<close>, \<open>getSignedUploadUrls\<close>, \<open>uploadChunk\<close>,
  \<open>completeUpload\<close>) and the signed-URL download (\<open>downloadObjectUsingSignedUrl\<close>).

  Go's \<open>int\<close> and \<open>int64\<close> are modelled as \<open>int\<close>; the integer division of Go
  truncates towards zero and is written \<open>sdiv\<close>. A file size is below \<open>2 ^ 63\<close>, so part and
  batch counts stay far below the range of a 64-bit \<open>int\<close> and no operation of the job wraps
  around. Strings and byte slices are both lists of characters.
\<close>

subsection \<open>Errors\<close>

text \<open>
  Go errors are values. \<open>LibError\<close> stands for an error produced by a library or a collaborator
  (\<open>os\<close>, \<open>net/http\<close>, \<open>encoding/json\<close>, the authenticator); \<open>io_EOF\<close> is \<open>io.EOF\<close>.
  The errors the package builds itself keep their parts:
  \<^item> \<open>StatusError status body\<close> is \<open>errors.New("[" + strconv.Itoa(status) + "] " + body)\<close>;
  \<^item> \<open>SizeMismatchError expected received\<close> is
    \<open>fmt.Errorf("the file size doesn't match, expected %v, but received %v", ...)\<close>;
  \<^item> \<open>SignedUrlsError firstPart parts err\<close> is
    \<open>fmt.Errorf("Error getting signed URLs for parts %v-%v :\n%w", firstPart, parts, err)\<close>;
  \<^item> \<open>ReadFileError err\<close> is \<open>fmt.Errorf("Error reading the file to upload:\n%w", err)\<close>;
  \<^item> \<open>ChunkUploadError url err\<close> is
    \<open>fmt.Errorf("Error uploading a chunk to URL:\n- %v\n%w", url, err)\<close>;
  \<^item> \<open>CompleteUploadError err\<close> is \<open>fmt.Errorf("Error completing the upload:\n%w", err)\<close>;
  \<^item> \<open>RetryError msg\<close> is an error of the retry package itself.
\<close>

datatype error =
    io_EOF
  | LibError string
  | StatusError int string
  | SizeMismatchError int int
  | SignedUrlsError int int error
  | ReadFileError error
  | ChunkUploadError string error
  | CompleteUploadError error
  | RetryError string

subsection \<open>HTTP requests, responses and the history of effects\<close>

type_synonym bytes = string

text \<open>
  A request as \<open>http.NewRequest\<close> builds it and the functions of the package complete it.
  \<open>Query\<close> holds the parameters added with \<open>q.Add\<close>, in the order of the calls
  (\<open>q.Encode\<close> later sorts them by key); the paths the package builds are joined from the
  host, the bucket and object keys and carry no query string of their own, so
  \<open>req.URL.Query()\<close> starts empty. Header keys are compared as written.
\<close>

record request =
  Method :: string
  URL :: string
  Query :: "(string \<times> string) list"
  Header :: "(string \<times> string) list"
  Body :: bytes
  ContentLength :: int

text \<open>
  A response: its status code, the bytes \<open>io.ReadAll\<close> obtains from its body, and the error
  the read ends with, if any.
\<close>

record response =
  StatusCode :: int
  RespBody :: bytes
  RespBodyErr :: "error option"

text \<open>
  What \<open>http.Client.Do\<close> yields: a transport error or a response, and how many bytes of the
  request body the transport has read from the reader it was given.
\<close>

record reply =
  outcome :: "error + response"
  consumed :: nat

text \<open>
  The effects of the package, in the order they happen: a call of the authenticator's
  \<open>GetToken\<close> with its scope and result, a round trip of the HTTP client, and a
  \<open>time.Sleep\<close> of the retry wrapper (in nanoseconds). The world is the history of these
  events; the collaborators answer as functions of the history, which covers every
  deterministic server and authenticator.
\<close>

datatype event =
    TokenCall string "error + string"
  | HttpCall request reply
  | Sleep int

type_synonym world = "event list"

subsection \<open>Files\<close>

text \<open>
  An open regular file: its content, the read cursor, and the I/O error (if any) that a read
  at a given cursor position fails with.
\<close>

record osFile =
  content :: bytes
  pos :: nat
  readFault :: "nat \<Rightarrow> error option"

subsection \<open>Data of the package\<close>

text \<open>
  Modelled from the spec: the declarations of \<open>BucketAPI\<close>, \<open>uploadJob\<close>,
  \<open>signedUploadUrls\<close> and \<open>UploadResult\<close> are in files of the package that are not among
  the sources. Their fields are the ones the functions below use; \<open>UploadResult\<close> is the
  finalized object's descriptor (identifier, size, location) and \<open>Urls\<close> is the ordered
  list of signed URLs of a batch.
\<close>

record BucketAPI =
  HostPath :: string
  BucketAPIPath :: string

record uploadJob =
  api :: BucketAPI
  bucketKey :: string
  objectKey :: string
  fileToUpload :: string
  minutesExpiration :: int
  uploadKey :: string
  fileSize :: int
  totalParts :: int
  numberOfBatches :: int

record signedUploadUrls =
  UploadKey :: string
  Urls :: "string list"

record UploadResult =
  ObjectId :: string
  ResultSize :: int
  Location :: string

record signedDownloadUrl =
  Status :: string
  Url :: string
  Size :: int
  Sha1 :: string

text \<open>The body of the finalize request before \<open>json.Marshal\<close>.\<close>

record finalizeBody =
  bodyUploadKey :: string
  bodySize :: int

subsection \<open>Collaborators\<close>

text \<open>
  The libraries and services the package calls, as parameters: the authenticator
  (\<open>GetToken\<close> returns the access token of the bearer), \<open>path.Join\<close>, the URL check of
  \<open>http.NewRequest\<close>, the HTTP client, the JSON encoder and decoders, and the file system.
\<close>

record env =
  GetToken :: "world \<Rightarrow> string \<Rightarrow> error + string"
  path_Join :: "string list \<Rightarrow> string"
  urlError :: "string \<Rightarrow> error option"
  client_Do :: "world \<Rightarrow> request \<Rightarrow> reply"
  json_Marshal :: "finalizeBody \<Rightarrow> error + bytes"
  decodeSignedUploadUrls :: "response \<Rightarrow> error + signedUploadUrls"
  decodeUploadResult :: "response \<Rightarrow> error + UploadResult"
  os_Stat :: "string \<Rightarrow> error + int"
  os_Open :: "string \<Rightarrow> error + osFile"

subsection \<open>Constants\<close>

definition megaByte :: int where
  "megaByte = 2 ^ 20"

definition maxParts :: int where
  "maxParts = 25"

definition signedS3UploadEndpoint :: string where
  "signedS3UploadEndpoint = ''signeds3upload''"

text \<open>The constant \<open>minutesExpiration\<close> of the package (the job has a field of that name).\<close>

definition minutesExpiration_const :: int where
  "minutesExpiration_const = 60"

definition defaultSize :: int where
  "defaultSize = 100 * megaByte"

definition Second :: int where
  "Second = 1000000000"

subsection \<open>Library functions\<close>

text \<open>\<open>strconv.Itoa\<close>: the decimal digits of an integer, with a sign when negative.\<close>

fun digits :: "nat \<Rightarrow> string" where
  "digits n =
     (if n < 10 then [''0123456789'' ! n]
      else digits (n div 10) @ [''0123456789'' ! (n mod 10)])"

definition Itoa :: "int \<Rightarrow> string" where
  "Itoa i = (if i < 0 then CHR ''-'' # digits (nat (- i)) else digits (nat i))"

text \<open>\<open>http.Header\<close>: \<open>Get\<close> gives the first value of a key or the empty string.\<close>

definition Header_Get :: "(string \<times> string) list \<Rightarrow> string \<Rightarrow> string" where
  "Header_Get h key = (case map_of h key of None \<Rightarrow> [] | Some v \<Rightarrow> v)"

definition Header_Add :: "(string \<times> string) list \<Rightarrow> string \<Rightarrow> string \<Rightarrow> (string \<times> string) list" where
  "Header_Add h key v = h @ [(key, v)]"

definition Header_Set :: "(string \<times> string) list \<Rightarrow> string \<Rightarrow> string \<Rightarrow> (string \<times> string) list" where
  "Header_Set h key v = filter (\<lambda>kv. fst kv \<noteq> key) h @ [(key, v)]"

text \<open>
  \<open>http.NewRequest\<close>: fails when the URL does not parse; the content length of a request is
  the length of the buffer it is given (zero without a body).
\<close>

definition NewRequest :: "env \<Rightarrow> string \<Rightarrow> string \<Rightarrow> bytes \<Rightarrow> error + request" where
  "NewRequest e method url body =
     (case urlError e url of
        Some err \<Rightarrow> Inl err
      | None \<Rightarrow>
          Inr \<lparr>Method = method, URL = url, Query = [], Header = [], Body = body,
               ContentLength = int (length body)\<rparr>)"

text \<open>\<open>http.Client.Do\<close>: the round trip is recorded in the history.\<close>

definition Do :: "env \<Rightarrow> request \<Rightarrow> world \<Rightarrow> reply \<times> world" where
  "Do e req w = (let rep = client_Do e w req in (rep, w @ [HttpCall req rep]))"

definition time_Sleep :: "int \<Rightarrow> world \<Rightarrow> world" where
  "time_Sleep d w = w @ [Sleep d]"

text \<open>
  \<open>file.Read\<close> into a slice of \<open>n > 0\<close> bytes: an I/O error, \<open>io.EOF\<close> with no bytes at
  the end of the file, or the next bytes (as many as the slice holds or the file has left)
  with the cursor advanced.
\<close>

definition file_Read :: "osFile \<Rightarrow> nat \<Rightarrow> bytes \<times> error option \<times> osFile" where
  "file_Read f n =
     (case readFault f (pos f) of
        Some err \<Rightarrow> ([], Some err, f)
      | None \<Rightarrow>
          if length (content f) \<le> pos f then ([], Some io_EOF, f)
          else
            (let bs = take n (drop (pos f) (content f))
             in (bs, None, f\<lparr>pos := pos f + length bs\<rparr>)))"

text \<open>
  Modelled from the spec: \<open>retry.Do\<close> belongs to the package
  \<open>github.com/thedevsaddam/retry\<close>, which is not among the sources. It calls the operation up
  to \<open>attempt\<close> times, returns the first success, sleeps for the fixed interval between two
  attempts (not after the last) and returns the last error once the attempts are used up;
  with no attempt allowed it fails at once. The sleep is passed as the state change it
  causes.
\<close>

fun retry_Do :: "nat \<Rightarrow> ('s \<Rightarrow> 's) \<Rightarrow> ('s \<Rightarrow> (error + 'a) \<times> 's) \<Rightarrow> 's \<Rightarrow> (error + 'a) \<times> 's" where
  "retry_Do 0 sleep fn s = (Inl (RetryError ''retry: attempt should be greater than 0''), s)"
| "retry_Do (Suc n) sleep fn s =
     (case fn s of
        (Inr out, s') \<Rightarrow> (Inr out, s')
      | (Inl err, s') \<Rightarrow>
          if n = 0 then (Inl err, s') else retry_Do n sleep fn (sleep s'))"

subsection \<open>The upload job\<close>

definition newUploadJob :: "env \<Rightarrow> BucketAPI \<Rightarrow> string \<Rightarrow> string \<Rightarrow> string \<Rightarrow> uploadJob \<times> error option" where
  "newUploadJob e a bucket objectName path =
     (let job = \<lparr>api = a, bucketKey = bucket, objectKey = objectName, fileToUpload = path,
                 minutesExpiration = minutesExpiration_const, uploadKey = [],
                 fileSize = 0, totalParts = 0, numberOfBatches = 0\<rparr>
      in case os_Stat e (fileToUpload job) of
           Inl err \<Rightarrow> (job, Some err)
         | Inr sz \<Rightarrow>
             (let job = job\<lparr>fileSize := sz\<rparr>;
                  job = job\<lparr>totalParts := (fileSize job sdiv defaultSize) + 1\<rparr>;
                  job = job\<lparr>numberOfBatches := (totalParts job sdiv maxParts) + 1\<rparr>
              in (job, None)))"

definition getParts :: "uploadJob \<Rightarrow> int \<Rightarrow> int" where
  "getParts job partsCounter =
     (let parts = maxParts
      in if totalParts job < partsCounter + maxParts then totalParts job - partsCounter
         else parts)"

definition getSignedS3UploadPath :: "env \<Rightarrow> uploadJob \<Rightarrow> string" where
  "getSignedS3UploadPath e job =
     HostPath (api job) @
     path_Join e [BucketAPIPath (api job), bucketKey job, ''objects'', objectKey job,
                  signedS3UploadEndpoint]"

definition authenticate :: "env \<Rightarrow> world \<Rightarrow> (error + string) \<times> world" where
  "authenticate e w =
     (let r = GetToken e w ''data:write data:read''
      in (r, w @ [TokenCall ''data:write data:read'' r]))"

definition addOrSetHeader :: "request \<Rightarrow> string \<Rightarrow> string \<Rightarrow> request" where
  "addOrSetHeader req key v =
     (if Header_Get (Header req) key = [] then req\<lparr>Header := Header_Add (Header req) key v\<rparr>
      else req\<lparr>Header := Header_Set (Header req) key v\<rparr>)"

definition getSignedUploadUrls ::
  "env \<Rightarrow> uploadJob \<Rightarrow> int \<Rightarrow> int \<Rightarrow> world \<Rightarrow> (error + signedUploadUrls) \<times> world" where
  "getSignedUploadUrls e job firstPart parts w =
     (case authenticate e w of
        (Inl err, w1) \<Rightarrow> (Inl err, w1)
      | (Inr accessToken, w1) \<Rightarrow>
          (case NewRequest e ''GET'' (getSignedS3UploadPath e job) [] of
             Inl err \<Rightarrow> (Inl err, w1)
           | Inr req0 \<Rightarrow>
               (let req1 = addOrSetHeader req0 ''Authorization'' (''Bearer '' @ accessToken);
                    q0 = Query req1;
                    q1 = (if uploadKey job \<noteq> [] then q0 @ [(''uploadKey'', uploadKey job)] else q0);
                    q2 = q1 @ [(''firstPart'', Itoa firstPart)];
                    q3 = q2 @ [(''parts'', Itoa parts)];
                    q4 = q3 @ [(''minutesExpiration'', Itoa (minutesExpiration job))];
                    req2 = req1\<lparr>Query := q4\<rparr>;
                    (rep, w2) = Do e req2 w1
                in case outcome rep of
                     Inl err \<Rightarrow> (Inl err, w2)
                   | Inr resp \<Rightarrow>
                       if StatusCode resp \<noteq> 200
                       then (Inl (StatusError (StatusCode resp) (RespBody resp)), w2)
                       else (decodeSignedUploadUrls e resp, w2))))"

text \<open>
  \<open>uploadChunk\<close> is handed a pointer to a \<open>bytes.Buffer\<close>; the state of the buffer is the
  bytes not yet read from it. The request body reads from that very buffer, so the round
  trip leaves the buffer without the bytes the transport has consumed.
\<close>

definition uploadChunk :: "env \<Rightarrow> string \<Rightarrow> bytes \<times> world \<Rightarrow> (error + unit) \<times> (bytes \<times> world)" where
  "uploadChunk e signedUrl bw =
     (case bw of (buffer, w) \<Rightarrow>
        (case NewRequest e ''PUT'' signedUrl buffer of
           Inl err \<Rightarrow> (Inl err, (buffer, w))
         | Inr req0 \<Rightarrow>
             (let l = int (length buffer);
                  req1 = req0\<lparr>ContentLength := l\<rparr>;
                  req2 = addOrSetHeader req1 ''Content-Type'' ''application/octet-stream'';
                  req3 = addOrSetHeader req2 ''Content-Length'' (Itoa l);
                  (rep, w1) = Do e req3 w;
                  buffer1 = drop (consumed rep) buffer
              in case outcome rep of
                   Inl err \<Rightarrow> (Inl err, (buffer1, w1))
                 | Inr resp \<Rightarrow>
                     if StatusCode resp = 200 then (Inr (), (buffer1, w1))
                     else (Inl (StatusError (StatusCode resp) (RespBody resp)), (buffer1, w1)))))"

definition completeUpload :: "env \<Rightarrow> uploadJob \<Rightarrow> world \<Rightarrow> (error + UploadResult) \<times> world" where
  "completeUpload e job w =
     (case authenticate e w of
        (Inl err, w1) \<Rightarrow> (Inl err, w1)
      | (Inr accessToken, w1) \<Rightarrow>
          (let bodyData = \<lparr>bodyUploadKey = uploadKey job, bodySize = fileSize job\<rparr>
           in case json_Marshal e bodyData of
                Inl err \<Rightarrow> (Inl err, w1)
              | Inr bodyJson \<Rightarrow>
                  (case NewRequest e ''POST'' (getSignedS3UploadPath e job) bodyJson of
                     Inl err \<Rightarrow> (Inl err, w1)
                   | Inr req0 \<Rightarrow>
                       (let req1 = addOrSetHeader req0 ''Authorization'' (''Bearer '' @ accessToken);
                            req2 = addOrSetHeader req1 ''Content-Type'' ''application/json'';
                            req3 = addOrSetHeader req2 ''x-ads-meta-Content-Type''
                                     ''application/octet-stream'';
                            (rep, w2) = Do e req3 w1
                        in case outcome rep of
                             Inl err \<Rightarrow> (Inl err, w2)
                           | Inr resp \<Rightarrow>
                               if StatusCode resp \<noteq> 200
                               then (Inl (StatusError (StatusCode resp) (RespBody resp)), w2)
                               else (decodeUploadResult e resp, w2)))))"

text \<open>
  The three calls \<open>retry.Do(3, 3*time.Second, ...)\<close> of \<open>uploadFile\<close>: for the signed
  URLs of a batch, for a chunk (the sleep leaves the buffer alone) and for the completion.
\<close>

definition retry_getSignedUploadUrls ::
  "env \<Rightarrow> uploadJob \<Rightarrow> int \<Rightarrow> int \<Rightarrow> world \<Rightarrow> (error + signedUploadUrls) \<times> world" where
  "retry_getSignedUploadUrls e job firstPart parts w =
     retry_Do 3 (time_Sleep (3 * Second)) (getSignedUploadUrls e job firstPart parts) w"

definition retry_uploadChunk :: "env \<Rightarrow> string \<Rightarrow> bytes \<times> world \<Rightarrow> (error + unit) \<times> (bytes \<times> world)" where
  "retry_uploadChunk e url bw =
     retry_Do 3 (apsnd (time_Sleep (3 * Second))) (uploadChunk e url) bw"

definition retry_completeUpload :: "env \<Rightarrow> uploadJob \<Rightarrow> world \<Rightarrow> (error + UploadResult) \<times> world" where
  "retry_completeUpload e job w =
     retry_Do 3 (time_Sleep (3 * Second)) (completeUpload e job) w"

text \<open>
  The inner loop of \<open>uploadFile\<close> over the signed URLs of one batch. It yields the value of
  the loop's own variable \<open>err\<close> at a \<open>return\<close> (\<open>None\<close> when the loop runs to its end),
  the file and the world.
\<close>

fun uploadFile_urls :: "env \<Rightarrow> string list \<Rightarrow> osFile \<Rightarrow> world \<Rightarrow> error option \<times> osFile \<times> world" where
  "uploadFile_urls e [] f w = (None, f, w)"
| "uploadFile_urls e (url # urls) f w =
     (case file_Read f (nat defaultSize) of
        (bytesSlice, err, f1) \<Rightarrow>
          if err \<noteq> None \<and> err \<noteq> Some io_EOF then (map_option ReadFileError err, f1, w)
          else
            \<comment> \<open>no error, or EOF reached\<close>
            if 0 < length bytesSlice then
              (case retry_uploadChunk e url (bytesSlice, w) of
                 (Inl uerr, (_, w1)) \<Rightarrow> (Some (ChunkUploadError url uerr), f1, w1)
               | (Inr _, (_, w1)) \<Rightarrow> uploadFile_urls e urls f1 w1)
            else uploadFile_urls e urls f1 w)"

text \<open>
  The outer loop of \<open>uploadFile\<close> over the batches, from batch \<open>i\<close> on. It yields the
  loop's own \<open>err\<close> at a \<open>return\<close> (\<open>None\<close> when all batches are done), the job (whose
  \<open>uploadKey\<close> the first batch sets), the file and the world.
\<close>

function uploadFile_batches ::
  "env \<Rightarrow> int \<Rightarrow> int \<Rightarrow> uploadJob \<Rightarrow> osFile \<Rightarrow> world \<Rightarrow> error option \<times> uploadJob \<times> osFile \<times> world" where
  "uploadFile_batches e i partsCounter job f w =
     (if i < numberOfBatches job then
        (let firstPart = (i * maxParts) + 1;
             parts = getParts job partsCounter
         in case retry_getSignedUploadUrls e job firstPart parts w of
              (Inl err, w1) \<Rightarrow> (Some (SignedUrlsError firstPart parts err), job, f, w1)
            | (Inr uploadUrls, w1) \<Rightarrow>
                (let job1 = (if i = 0 then job\<lparr>uploadKey := UploadKey uploadUrls\<rparr> else job)
                 in case uploadFile_urls e (Urls uploadUrls) f w1 of
                      (Some err, f1, w2) \<Rightarrow> (Some err, job1, f1, w2)
                    | (None, f1, w2) \<Rightarrow>
                        uploadFile_batches e (i + 1) (partsCounter + maxParts) job1 f1 w2))
      else (None, job, f, w))"
  by pat_completeness auto
termination
  by (relation "measure (\<lambda>(e, i, partsCounter, job, f, w). nat (numberOfBatches job - i))")
     (auto split: if_splits)

text \<open>
  \<open>uploadFile\<close> has the named results \<open>result\<close> and \<open>err\<close>. \<open>os.Open\<close> assigns the named
  \<open>err\<close>, and so does the call of \<open>completeUpload\<close> after the loop, both in the function's
  outermost block. Inside the loop, \<open>tmpResult, err := retry.Do(...)\<close> and
  \<open>bytesRead, err := file.Read(...)\<close> declare a new \<open>err\<close> in the block of the loop body:
  the error and the context that \<open>fmt.Errorf\<close> adds to it are assigned to that variable,
  and the bare \<open>return\<close> that follows yields the named results, which still hold the zero
  \<open>UploadResult\<close> and the \<open>nil\<close> left by the successful \<open>os.Open\<close>. (The Go compiler
  refuses a bare \<open>return\<close> where a result parameter is shadowed; the model follows the
  language's scoping rules.) The deferred \<open>file.Close\<close> has no effect on the results.
\<close>

definition zeroUploadResult :: UploadResult where
  "zeroUploadResult = \<lparr>ObjectId = [], ResultSize = 0, Location = []\<rparr>"

definition uploadFile :: "env \<Rightarrow> uploadJob \<Rightarrow> world \<Rightarrow> (UploadResult \<times> error option) \<times> uploadJob \<times> world" where
  "uploadFile e job w =
     (let result = zeroUploadResult
      in case os_Open e (fileToUpload job) of
           Inl err \<Rightarrow> ((result, Some err), job, w)
         | Inr f \<Rightarrow>
             (let err = None
              in case uploadFile_batches e 0 0 job f w of
                   (Some loopErr, job1, f1, w1) \<Rightarrow> ((result, err), job1, w1)
                 | (None, job1, f1, w1) \<Rightarrow>
                     (case retry_completeUpload e job1 w1 of
                        (Inl err, w2) \<Rightarrow> ((result, Some (CompleteUploadError err)), job1, w2)
                      | (Inr res, w2) \<Rightarrow> ((res, None), job1, w2))))"

subsection \<open>The signed-URL download\<close>

definition downloadObjectUsingSignedUrl ::
  "env \<Rightarrow> signedDownloadUrl \<Rightarrow> world \<Rightarrow> (bytes \<times> error option) \<times> world" where
  "downloadObjectUsingSignedUrl e s w =
     (case NewRequest e ''GET'' (Url s) [] of
        Inl err \<Rightarrow> (([], Some err), w)
      | Inr req \<Rightarrow>
          (let (rep, w1) = Do e req w
           in case outcome rep of
                Inl err \<Rightarrow> (([], Some err), w1)
              | Inr resp \<Rightarrow>
                  if StatusCode resp \<noteq> 200
                  then (([], Some (StatusError (StatusCode resp) (RespBody resp))), w1)
                  else
                    (case RespBodyErr resp of
                       Some err \<Rightarrow> ((RespBody resp, Some err), w1)
                     | None \<Rightarrow>
                         (let result = RespBody resp;
                              receivedSize = int (length result)
                          in if receivedSize \<noteq> Size s
                             then ((result, Some (SizeMismatchError (Size s) receivedSize)), w1)
                             else ((result, None), w1)))))"

subsection \<open>Instruments and example collaborators\<close>



text \<open>
  Example collaborators: a file system with one file of a given size and content, an
  authenticator that always grants the token \<open>token\<close>, and a given HTTP server and decoder
  of signed-URL responses.
\<close>

definition exampleEnv ::
  "int \<Rightarrow> osFile \<Rightarrow> (world \<Rightarrow> request \<Rightarrow> reply) \<Rightarrow> (response \<Rightarrow> error + signedUploadUrls) \<Rightarrow> env" where
  "exampleEnv sz f server decode =
     \<lparr>GetToken = (\<lambda>w scope. Inr ''token''),
      path_Join = (\<lambda>xs. concat (map (\<lambda>x. CHR ''/'' # x) xs)),
      urlError = (\<lambda>url. None),
      client_Do = server,
      json_Marshal = (\<lambda>b. Inr (bodyUploadKey b @ '':'' @ Itoa (bodySize b))),
      decodeSignedUploadUrls = decode,
      decodeUploadResult = (\<lambda>resp. Inr \<lparr>ObjectId = RespBody resp, ResultSize = 0, Location = []\<rparr>),
      os_Stat = (\<lambda>path. Inr sz),
      os_Open = (\<lambda>path. Inr f)\<rparr>"

definition exampleApi :: BucketAPI where
  "exampleApi = \<lparr>HostPath = ''https://host'', BucketAPIPath = ''/oss/v2/buckets''\<rparr>"

definition exampleFile :: "bytes \<Rightarrow> osFile" where
  "exampleFile bs = \<lparr>content = bs, pos = 0, readFault = (\<lambda>p. None)\<rparr>"

text \<open>A server that answers every request with the given status and body, having read the
  whole request body.\<close>

definition constServer :: "int \<Rightarrow> bytes \<Rightarrow> world \<Rightarrow> request \<Rightarrow> reply" where
  "constServer status body w req =
     \<lparr>outcome = Inr \<lparr>StatusCode = status, RespBody = body, RespBodyErr = None\<rparr>,
      consumed = length (Body req)\<rparr>"

text \<open>A decoder that reads every body as the session token \<open>key\<close> with the given URLs.\<close>

definition constDecode :: "string \<Rightarrow> string list \<Rightarrow> response \<Rightarrow> error + signedUploadUrls" where
  "constDecode key urls resp = Inr \<lparr>UploadKey = key, Urls = urls\<rparr>"

text \<open>
  A small scenario: a file of three bytes, a server that accepts every request, and a
  decoder that finds the session token \<open>K\<close> and one signed URL in every response. The job
  is the one \<open>newUploadJob\<close> makes for that file.
\<close>

definition smallEnv :: env where
  "smallEnv = exampleEnv 3 (exampleFile ''abc'') (constServer 200 []) (constDecode ''K'' [''https://s3/part1''])"

definition smallJob :: uploadJob where
  "smallJob =
     \<lparr>api = exampleApi, bucketKey = ''bucket'', objectKey = ''object'', fileToUpload = ''small.bin'',
      minutesExpiration = 60, uploadKey = [], fileSize = 3, totalParts = 1, numberOfBatches = 1\<rparr>"

text \<open>The same scenario with a server that reads every request and answers it with status 500.\<close>

definition busyEnv :: env where
  "busyEnv = exampleEnv 3 (exampleFile ''abc'') (constServer 500 ''busy'') (constDecode ''K'' [''https://s3/part1''])"

text \<open>
  A download scenario: the metadata declares five bytes, the server answers every request
  with status 200 and the three bytes \<open>abc\<close>.
\<close>

definition shortEnv :: env where
  "shortEnv = exampleEnv 5 (exampleFile []) (constServer 200 ''abc'') (constDecode [] [])"

definition exampleDownload :: signedDownloadUrl where
  "exampleDownload = \<lparr>Status = ''complete'', Url = ''https://s3/object'', Size = 5, Sha1 = []\<rparr>"

text \<open>
  The same download with a response cut short: the server answers with status 200, three
  bytes of the body arrive and the read of the body then fails.
\<close>

definition cutServer :: "world \<Rightarrow> request \<Rightarrow> reply" where
  "cutServer w req =
     \<lparr>outcome = Inr \<lparr>StatusCode = 200, RespBody = ''abc'',
                      RespBodyErr = Some (LibError ''unexpected EOF'')\<rparr>,
      consumed = length (Body req)\<rparr>"

definition cutEnv :: env where
  "cutEnv = exampleEnv 5 (exampleFile []) cutServer (constDecode [] [])"

text \<open>
  A scenario with several batches: the file holds \<open>sz\<close> bytes, the server answers every
  request with status 200 and repeats the requested number of parts in the body, and the
  decoder finds the session token \<open>key\<close> and that many signed URLs (for the part counts 25
  and 1 that occur below, otherwise none). The job is the one \<open>newUploadJob\<close> makes.
\<close>

definition partsServer :: "world \<Rightarrow> request \<Rightarrow> reply" where
  "partsServer w req =
     \<lparr>outcome = Inr \<lparr>StatusCode = 200,
                      RespBody = (case map_of (Query req) ''parts'' of Some p \<Rightarrow> p | None \<Rightarrow> []),
                      RespBodyErr = None\<rparr>,
      consumed = length (Body req)\<rparr>"

definition signedUrlList :: "nat \<Rightarrow> string list" where
  "signedUrlList n = map (\<lambda>k. ''https://s3/part-'' @ Itoa (int k)) [0..<n]"

definition partsDecode :: "string \<Rightarrow> response \<Rightarrow> error + signedUploadUrls" where
  "partsDecode key resp =
     Inr \<lparr>UploadKey = key,
          Urls = (if RespBody resp = ''25'' then signedUrlList 25
                  else if RespBody resp = ''1'' then signedUrlList 1 else [])\<rparr>"

definition batchEnv :: "string \<Rightarrow> int \<Rightarrow> env" where
  "batchEnv key sz =
     exampleEnv sz (exampleFile (replicate (nat sz) CHR ''x'')) partsServer (partsDecode key)"

definition batchJob :: "int \<Rightarrow> uploadJob" where
  "batchJob sz = fst (newUploadJob (batchEnv [] sz) exampleApi ''bucket'' ''object'' ''big.bin'')"

text \<open>
  Collaborators with which nothing fails: the authenticator grants a token, every URL
  parses, the server answers every request with status 200, and every response decodes.
\<close>

definition healthy :: "env \<Rightarrow> bool" where
  "healthy e \<longleftrightarrow>
     (\<forall>w scope. \<exists>tok. GetToken e w scope = Inr tok) \<and>
     (\<forall>url. urlError e url = None) \<and>
     (\<forall>w req. \<exists>resp. outcome (client_Do e w req) = Inr resp \<and> StatusCode resp = 200) \<and>
     (\<forall>resp. \<exists>u. decodeSignedUploadUrls e resp = Inr u)"

subsection \<open>Observations on histories\<close>

text \<open>The events that a run starting in the history \<open>w\<close> has added to reach \<open>w'\<close>.\<close>

definition newEvents :: "world \<Rightarrow> world \<Rightarrow> event list" where
  "newEvents w w' = drop (length w) w'"

text \<open>
  \<open>w'\<close> prolongs \<open>w\<close> by events whose HTTP round trips all satisfy \<open>P\<close>.
\<close>

definition onCalls :: "(request \<Rightarrow> reply \<Rightarrow> bool) \<Rightarrow> event \<Rightarrow> bool" where
  "onCalls P ev = (case ev of HttpCall req rep \<Rightarrow> P req rep | _ \<Rightarrow> True)"

definition extendsBy :: "(request \<Rightarrow> reply \<Rightarrow> bool) \<Rightarrow> world \<Rightarrow> world \<Rightarrow> bool" where
  "extendsBy P w w' \<longleftrightarrow> take (length w) w' = w \<and> list_all (onCalls P) (newEvents w w')"

text \<open>
  The requests the three operations send, as their definitions build them: the request of
  \<open>getSignedUploadUrls\<close> for a job, an access token, a first part and a part count; the
  request of \<open>uploadChunk\<close> for a URL and the bytes left in the buffer; the request of
  \<open>completeUpload\<close> for a job, an access token and the encoded body.
\<close>

definition signedUrlsRequest :: "env \<Rightarrow> uploadJob \<Rightarrow> string \<Rightarrow> int \<Rightarrow> int \<Rightarrow> request" where
  "signedUrlsRequest e job accessToken firstPart parts =
     \<lparr>Method = ''GET'', URL = getSignedS3UploadPath e job,
      Query = (if uploadKey job \<noteq> [] then [(''uploadKey'', uploadKey job)] else []) @
              [(''firstPart'', Itoa firstPart), (''parts'', Itoa parts),
               (''minutesExpiration'', Itoa (minutesExpiration job))],
      Header = [(''Authorization'', ''Bearer '' @ accessToken)],
      Body = [], ContentLength = 0\<rparr>"

definition chunkRequest :: "string \<Rightarrow> bytes \<Rightarrow> request" where
  "chunkRequest url buffer =
     \<lparr>Method = ''PUT'', URL = url, Query = [],
      Header = [(''Content-Type'', ''application/octet-stream''),
                (''Content-Length'', Itoa (int (length buffer)))],
      Body = buffer, ContentLength = int (length buffer)\<rparr>"

definition completeRequest :: "env \<Rightarrow> uploadJob \<Rightarrow> string \<Rightarrow> bytes \<Rightarrow> request" where
  "completeRequest e job accessToken bodyJson =
     \<lparr>Method = ''POST'', URL = getSignedS3UploadPath e job, Query = [],
      Header = [(''Authorization'', ''Bearer '' @ accessToken),
                (''Content-Type'', ''application/json''),
                (''x-ads-meta-Content-Type'', ''application/octet-stream'')],
      Body = bodyJson, ContentLength = int (length bodyJson)\<rparr>"

text \<open>What the three operations return for the reply of the HTTP client.\<close>

definition signedUrlsResult :: "env \<Rightarrow> reply \<Rightarrow> error + signedUploadUrls" where
  "signedUrlsResult e rep =
     (case outcome rep of
        Inl err \<Rightarrow> Inl err
      | Inr resp \<Rightarrow>
          if StatusCode resp \<noteq> 200 then Inl (StatusError (StatusCode resp) (RespBody resp))
          else decodeSignedUploadUrls e resp)"

definition chunkResult :: "reply \<Rightarrow> error + unit" where
  "chunkResult rep =
     (case outcome rep of
        Inl err \<Rightarrow> Inl err
      | Inr resp \<Rightarrow>
          if StatusCode resp = 200 then Inr ()
          else Inl (StatusError (StatusCode resp) (RespBody resp)))"

definition completeResult :: "env \<Rightarrow> reply \<Rightarrow> error + UploadResult" where
  "completeResult e rep =
     (case outcome rep of
        Inl err \<Rightarrow> Inl err
      | Inr resp \<Rightarrow>
          if StatusCode resp \<noteq> 200 then Inl (StatusError (StatusCode resp) (RespBody resp))
          else decodeUploadResult e resp)"

text \<open>
  The chunk uploads of a history: the \<open>PUT\<close> requests that do not directly follow a sleep of
  the retry wrapper, that is, the first attempt for each chunk. The flag tells whether the
  event before was a sleep.
\<close>

fun chunkUploads :: "bool \<Rightarrow> event list \<Rightarrow> request list" where
  "chunkUploads retrying [] = []"
| "chunkUploads retrying (Sleep d # evs) = chunkUploads True evs"
| "chunkUploads retrying (TokenCall scope t # evs) = chunkUploads False evs"
| "chunkUploads retrying (HttpCall req rep # evs) =
     (if Method req = ''PUT'' \<and> \<not> retrying then [req] else []) @ chunkUploads False evs"

text \<open>Whether the last event is a sleep (\<open>b\<close> says so for the event before the list).\<close>

fun endsAsleep :: "bool \<Rightarrow> event list \<Rightarrow> bool" where
  "endsAsleep b [] = b"
| "endsAsleep b (Sleep d # evs) = endsAsleep True evs"
| "endsAsleep b (TokenCall scope t # evs) = endsAsleep False evs"
| "endsAsleep b (HttpCall req rep # evs) = endsAsleep False evs"

text \<open>
  The signed URLs granted in a history, in order: those of every response to a \<open>GET\<close> that
  \<open>getSignedUploadUrls\<close> returns as its result.
\<close>

fun grantedUrls :: "env \<Rightarrow> event list \<Rightarrow> string list" where
  "grantedUrls e [] = []"
| "grantedUrls e (HttpCall req rep # evs) =
     (if Method req = ''GET''
      then (case signedUrlsResult e rep of Inr u \<Rightarrow> Urls u | Inl err \<Rightarrow> [])
      else []) @ grantedUrls e evs"
| "grantedUrls e (TokenCall scope t # evs) = grantedUrls e evs"
| "grantedUrls e (Sleep d # evs) = grantedUrls e evs"

text \<open>
  The bodies of the requests are, in order, the successive slices of \<open>n\<close> bytes of \<open>bs\<close>
  from offset \<open>p\<close> on, none of them empty.
\<close>

fun inFileOrder :: "bytes \<Rightarrow> nat \<Rightarrow> nat \<Rightarrow> request list \<Rightarrow> bool" where
  "inFileOrder bs n p [] = True"
| "inFileOrder bs n p (r # rs) =
     (Body r = take n (drop p bs) \<and> Body r \<noteq> [] \<and> inFileOrder bs n (p + n) rs)"

text \<open>
  No further read of the file yields bytes: the cursor is at the end of the content, or the
  read at the cursor fails.
\<close>

definition noMoreBytes :: "osFile \<Rightarrow> bool" where
  "noMoreBytes f \<longleftrightarrow> length (content f) \<le> pos f \<or> readFault f (pos f) \<noteq> None"

text \<open>The \<open>k\<close>-th chunk of a content cut into chunks of \<open>n\<close> bytes.\<close>

definition chunkOf :: "bytes \<Rightarrow> nat \<Rightarrow> nat \<Rightarrow> bytes" where
  "chunkOf bs n k = take n (drop (k * n) bs)"

text \<open>
  The chunk uploads of a history that the server accepted: the requests of the \<open>PUT\<close>
  round trips for whose reply \<open>uploadChunk\<close> returns no error.
\<close>

fun acceptedUploads :: "event list \<Rightarrow> request list" where
  "acceptedUploads [] = []"
| "acceptedUploads (HttpCall req rep # evs) =
     (if Method req = ''PUT'' \<and> chunkResult rep = Inr () then [req] else []) @ acceptedUploads evs"
| "acceptedUploads (TokenCall scope t # evs) = acceptedUploads evs"
| "acceptedUploads (Sleep d # evs) = acceptedUploads evs"

text \<open>Whether an error is the size-mismatch error of the download.\<close>

fun isSizeMismatch :: "error \<Rightarrow> bool" where
  "isSizeMismatch (SizeMismatchError declared received) = True"
| "isSizeMismatch err = False"

subsection \<open>Histories of the example scenarios\<close>

text \<open>The history of the upload in the small scenario, started in the empty history.\<close>

definition okReply :: "nat \<Rightarrow> reply" where
  "okReply n = \<lparr>outcome = Inr \<lparr>StatusCode = 200, RespBody = [], RespBodyErr = None\<rparr>, consumed = n\<rparr>"

definition smallTrace :: world where
  "smallTrace =
     [TokenCall ''data:write data:read'' (Inr ''token''),
      HttpCall (signedUrlsRequest smallEnv smallJob ''token'' 1 1) (okReply 0),
      HttpCall (chunkRequest ''https://s3/part1'' ''abc'') (okReply 3),
      TokenCall ''data:write data:read'' (Inr ''token''),
      HttpCall (completeRequest smallEnv (smallJob\<lparr>uploadKey := ''K''\<rparr>) ''token'' ''K:3'') (okReply 3)]"

text \<open>
  Three failing scenarios for the small file: the server answers every request with status
  500; the server grants the signed URLs but answers every \<open>PUT\<close> with status 500; the
  file cannot be read.
\<close>

definition replyWith :: "int \<Rightarrow> bytes \<Rightarrow> nat \<Rightarrow> reply" where
  "replyWith status body n =
     \<lparr>outcome = Inr \<lparr>StatusCode = status, RespBody = body, RespBodyErr = None\<rparr>, consumed = n\<rparr>"

definition busyTrace :: world where
  "busyTrace =
     [TokenCall ''data:write data:read'' (Inr ''token''),
      HttpCall (signedUrlsRequest busyEnv smallJob ''token'' 1 1) (replyWith 500 ''busy'' 0),
      Sleep (3 * Second),
      TokenCall ''data:write data:read'' (Inr ''token''),
      HttpCall (signedUrlsRequest busyEnv smallJob ''token'' 1 1) (replyWith 500 ''busy'' 0),
      Sleep (3 * Second),
      TokenCall ''data:write data:read'' (Inr ''token''),
      HttpCall (signedUrlsRequest busyEnv smallJob ''token'' 1 1) (replyWith 500 ''busy'' 0)]"

definition putFailServer :: "world \<Rightarrow> request \<Rightarrow> reply" where
  "putFailServer w req =
     (if Method req = ''PUT'' then replyWith 500 ''busy'' (length (Body req))
      else replyWith 200 [] (length (Body req)))"

definition putFailEnv :: env where
  "putFailEnv = exampleEnv 3 (exampleFile ''abc'') putFailServer (constDecode ''K'' [''https://s3/part1''])"

definition putFailTrace :: world where
  "putFailTrace =
     [TokenCall ''data:write data:read'' (Inr ''token''),
      HttpCall (signedUrlsRequest putFailEnv smallJob ''token'' 1 1) (replyWith 200 [] 0),
      HttpCall (chunkRequest ''https://s3/part1'' ''abc'') (replyWith 500 ''busy'' 3),
      Sleep (3 * Second),
      HttpCall (chunkRequest ''https://s3/part1'' []) (replyWith 500 ''busy'' 0),
      Sleep (3 * Second),
      HttpCall (chunkRequest ''https://s3/part1'' []) (replyWith 500 ''busy'' 0)]"

definition brokenFile :: osFile where
  "brokenFile = \<lparr>content = ''abc'', pos = 0, readFault = (\<lambda>p. Some (LibError ''input/output error''))\<rparr>"

definition brokenEnv :: env where
  "brokenEnv = exampleEnv 3 brokenFile (constServer 200 []) (constDecode ''K'' [''https://s3/part1''])"

definition brokenTrace :: world where
  "brokenTrace =
     [TokenCall ''data:write data:read'' (Inr ''token''),
      HttpCall (signedUrlsRequest brokenEnv smallJob ''token'' 1 1) (replyWith 200 [] 0)]"

text \<open>
  A transient failure for the small file: the server answers the first \<open>PUT\<close> of a
  history with status 500, having read the request body, and every other request with
  status 200.
\<close>

definition isPut :: "event \<Rightarrow> bool" where
  "isPut ev = (case ev of HttpCall req rep \<Rightarrow> Method req = ''PUT'' | _ \<Rightarrow> False)"

definition flakyServer :: "world \<Rightarrow> request \<Rightarrow> reply" where
  "flakyServer w req =
     (if Method req = ''PUT'' \<and> \<not> list_ex isPut w then replyWith 500 ''busy'' (length (Body req))
      else replyWith 200 [] (length (Body req)))"

definition flakyEnv :: env where
  "flakyEnv = exampleEnv 3 (exampleFile ''abc'') flakyServer (constDecode ''K'' [''https://s3/part1''])"

definition flakyTrace :: world where
  "flakyTrace =
     [TokenCall ''data:write data:read'' (Inr ''token''),
      HttpCall (signedUrlsRequest flakyEnv smallJob ''token'' 1 1) (replyWith 200 [] 0),
      HttpCall (chunkRequest ''https://s3/part1'' ''abc'') (replyWith 500 ''busy'' 3),
      Sleep (3 * Second),
      HttpCall (chunkRequest ''https://s3/part1'' []) (replyWith 200 [] 0),
      TokenCall ''data:write data:read'' (Inr ''token''),
      HttpCall (completeRequest flakyEnv (smallJob\<lparr>uploadKey := ''K''\<rparr>) ''token'' ''K:3'')
        (replyWith 200 [] 3)]"

section \<open>Properties\<close>

declare digits.simps [simp del]

subsection \<open>Histories\<close>

lemma extendsBy_refl: "extendsBy P w w"
  by (simp add: extendsBy_def newEvents_def)

lemma extendsBy_append: "extendsBy P w (w @ evs) \<longleftrightarrow> list_all (onCalls P) evs"
  by (simp add: extendsBy_def newEvents_def)

lemma extendsByE:
  assumes "extendsBy P w w'"
  obtains evs where "w' = w @ evs" and "list_all (onCalls P) evs"
proof -
  from assms have "w' = w @ drop (length w) w'"
    by (metis append_take_drop_id extendsBy_def)
  with assms show thesis
    by (intro that [of "drop (length w) w'"]) (simp_all add: extendsBy_def newEvents_def)
qed

lemma extendsBy_trans: "extendsBy P w w' \<Longrightarrow> extendsBy P w' w'' \<Longrightarrow> extendsBy P w w''"
  by (elim extendsByE) (simp add: extendsBy_append)

lemma extendsBy_mono:
  "extendsBy P w w' \<Longrightarrow> (\<And>req rep. P req rep \<Longrightarrow> Q req rep) \<Longrightarrow> extendsBy Q w w'"
  by (auto simp: extendsBy_def list_all_iff onCalls_def split: event.splits)

lemma extendsBy_calls:
  "extendsBy P w w' \<Longrightarrow> HttpCall req rep \<in> set (newEvents w w') \<Longrightarrow> P req rep"
  by (auto simp: extendsBy_def list_all_iff onCalls_def split: event.splits)

lemma extendsBy_newEvents:
  "extendsBy P w w' \<Longrightarrow> extendsBy P w' w'' \<Longrightarrow> newEvents w w'' = newEvents w w' @ newEvents w' w''"
  by (elim extendsByE) (simp add: newEvents_def)

lemma onCalls_simps [simp]:
  "onCalls P (HttpCall req rep) = P req rep"
  "onCalls P (TokenCall scope t) = True"
  "onCalls P (Sleep d) = True"
  by (simp_all add: onCalls_def)

subsection \<open>Operations\<close>

lemma addOrSetHeader_fresh:
  "map_of (Header req) key = None \<Longrightarrow>
   addOrSetHeader req key v = req\<lparr>Header := Header req @ [(key, v)]\<rparr>"
  by (simp add: addOrSetHeader_def Header_Get_def Header_Add_def)

lemma authenticate_eq:
  "authenticate e w =
     (GetToken e w ''data:write data:read'',
      w @ [TokenCall ''data:write data:read'' (GetToken e w ''data:write data:read'')])"
  by (simp add: authenticate_def Let_def)

lemma getSignedUploadUrls_eq:
  "getSignedUploadUrls e job firstPart parts w =
     (case GetToken e w ''data:write data:read'' of
        Inl err \<Rightarrow> (Inl err, w @ [TokenCall ''data:write data:read'' (Inl err)])
      | Inr tok \<Rightarrow>
          (case urlError e (getSignedS3UploadPath e job) of
             Some err \<Rightarrow> (Inl err, w @ [TokenCall ''data:write data:read'' (Inr tok)])
           | None \<Rightarrow>
               (signedUrlsResult e (client_Do e (w @ [TokenCall ''data:write data:read'' (Inr tok)])
                    (signedUrlsRequest e job tok firstPart parts)),
                w @ [TokenCall ''data:write data:read'' (Inr tok),
                     HttpCall (signedUrlsRequest e job tok firstPart parts)
                       (client_Do e (w @ [TokenCall ''data:write data:read'' (Inr tok)])
                          (signedUrlsRequest e job tok firstPart parts))])))"
proof (cases "GetToken e w ''data:write data:read''")
  case (Inl err)
  then show ?thesis
    by (simp add: getSignedUploadUrls_def authenticate_eq)
next
  case tok: (Inr tok)
  show ?thesis
  proof (cases "urlError e (getSignedS3UploadPath e job)")
    case (Some err)
    with tok show ?thesis
      by (simp add: getSignedUploadUrls_def authenticate_eq NewRequest_def)
  next
    case None
    with tok show ?thesis
      by (simp add: getSignedUploadUrls_def authenticate_eq NewRequest_def Do_def Let_def
          addOrSetHeader_def Header_Get_def Header_Add_def signedUrlsRequest_def
          signedUrlsResult_def split: sum.split)
  qed
qed

lemma uploadChunk_eq:
  "uploadChunk e url (buffer, w) =
     (case urlError e url of
        Some err \<Rightarrow> (Inl err, (buffer, w))
      | None \<Rightarrow>
          (chunkResult (client_Do e w (chunkRequest url buffer)),
           (drop (consumed (client_Do e w (chunkRequest url buffer))) buffer,
            w @ [HttpCall (chunkRequest url buffer) (client_Do e w (chunkRequest url buffer))])))"
proof (cases "urlError e url")
  case (Some err)
  then show ?thesis
    by (simp add: uploadChunk_def NewRequest_def)
next
  case None
  then show ?thesis
    by (simp add: uploadChunk_def NewRequest_def Do_def Let_def
        addOrSetHeader_def Header_Get_def Header_Add_def chunkRequest_def chunkResult_def
        split: sum.split)
qed

lemma completeUpload_eq:
  "completeUpload e job w =
     (case GetToken e w ''data:write data:read'' of
        Inl err \<Rightarrow> (Inl err, w @ [TokenCall ''data:write data:read'' (Inl err)])
      | Inr tok \<Rightarrow>
          (case json_Marshal e \<lparr>bodyUploadKey = uploadKey job, bodySize = fileSize job\<rparr> of
             Inl err \<Rightarrow> (Inl err, w @ [TokenCall ''data:write data:read'' (Inr tok)])
           | Inr bodyJson \<Rightarrow>
               (case urlError e (getSignedS3UploadPath e job) of
                  Some err \<Rightarrow> (Inl err, w @ [TokenCall ''data:write data:read'' (Inr tok)])
                | None \<Rightarrow>
                    (completeResult e
                       (client_Do e (w @ [TokenCall ''data:write data:read'' (Inr tok)])
                          (completeRequest e job tok bodyJson)),
                     w @ [TokenCall ''data:write data:read'' (Inr tok),
                          HttpCall (completeRequest e job tok bodyJson)
                            (client_Do e (w @ [TokenCall ''data:write data:read'' (Inr tok)])
                               (completeRequest e job tok bodyJson))]))))"
proof (cases "GetToken e w ''data:write data:read''")
  case (Inl err)
  then show ?thesis
    by (simp add: completeUpload_def authenticate_eq)
next
  case tok: (Inr tok)
  show ?thesis
  proof (cases "json_Marshal e \<lparr>bodyUploadKey = uploadKey job, bodySize = fileSize job\<rparr>")
    case (Inl err)
    with tok show ?thesis
      by (simp add: completeUpload_def authenticate_eq)
  next
    case body: (Inr bodyJson)
    show ?thesis
    proof (cases "urlError e (getSignedS3UploadPath e job)")
      case (Some err)
      with tok body show ?thesis
        by (simp add: completeUpload_def authenticate_eq NewRequest_def)
    next
      case None
      with tok body show ?thesis
        by (simp add: completeUpload_def authenticate_eq NewRequest_def Do_def Let_def
            addOrSetHeader_def Header_Get_def Header_Add_def completeRequest_def
            completeResult_def split: sum.split)
    qed
  qed
qed


subsection \<open>Events of the operations\<close>

lemma getSignedUploadUrls_extends:
  assumes "\<And>tok rep. P (signedUrlsRequest e job tok firstPart parts) rep"
  shows "extendsBy P w (snd (getSignedUploadUrls e job firstPart parts w))"
  by (simp add: getSignedUploadUrls_eq extendsBy_append assms split: sum.split option.split)

lemma uploadChunk_extends:
  assumes "\<And>b rep. P (chunkRequest url b) rep"
  shows "extendsBy P (snd bw) (snd (snd (uploadChunk e url bw)))"
  by (cases bw) (simp add: uploadChunk_eq extendsBy_append extendsBy_refl assms split: option.split)

lemma completeUpload_extends:
  assumes "\<And>tok bodyJson rep.
      json_Marshal e \<lparr>bodyUploadKey = uploadKey job, bodySize = fileSize job\<rparr> = Inr bodyJson
      \<Longrightarrow> P (completeRequest e job tok bodyJson) rep"
  shows "extendsBy P w (snd (completeUpload e job w))"
  by (simp add: completeUpload_eq extendsBy_append assms split: sum.split option.split)

lemma time_Sleep_extends: "extendsBy P w (time_Sleep d w)"
  by (simp add: time_Sleep_def extendsBy_append)

lemma retry_Do_extends:
  assumes fn: "\<And>s. extendsBy P (proj s) (proj (snd (fn s)))"
    and sl: "\<And>s. extendsBy P (proj s) (proj (sleep s))"
  shows "extendsBy P (proj s) (proj (snd (retry_Do n sleep fn s)))"
proof (induction n arbitrary: s)
  case 0
  show ?case by (simp add: extendsBy_refl)
next
  case (Suc n)
  obtain r s' where step: "fn s = (r, s')" by (cases "fn s")
  from fn [of s] step have a: "extendsBy P (proj s) (proj s')" by simp
  show ?case
  proof (cases r)
    case (Inr v)
    with step a show ?thesis by simp
  next
    case (Inl err)
    show ?thesis
    proof (cases "n = 0")
      case True
      with Inl step a show ?thesis by simp
    next
      case False
      from a sl [of s'] Suc.IH [of "sleep s'"]
      have "extendsBy P (proj s) (proj (snd (retry_Do n sleep fn (sleep s'))))"
        by (blast intro: extendsBy_trans)
      with Inl step False show ?thesis by simp
    qed
  qed
qed

lemma retry_getSignedUploadUrls_extends:
  assumes "\<And>tok rep. P (signedUrlsRequest e job tok firstPart parts) rep"
  shows "extendsBy P w (snd (retry_getSignedUploadUrls e job firstPart parts w))"
  unfolding retry_getSignedUploadUrls_def
  using retry_Do_extends [where proj = id and P = P and sleep = "time_Sleep (3 * Second)"
      and fn = "getSignedUploadUrls e job firstPart parts" and s = w and n = 3]
    getSignedUploadUrls_extends [where P = P and e = e and job = job and firstPart = firstPart
      and parts = parts, OF assms] time_Sleep_extends [of P]
  by simp

lemma retry_uploadChunk_extends:
  assumes "\<And>b rep. P (chunkRequest url b) rep"
  shows "extendsBy P (snd bw) (snd (snd (retry_uploadChunk e url bw)))"
  unfolding retry_uploadChunk_def
  using retry_Do_extends [where proj = snd and P = P and sleep = "apsnd (time_Sleep (3 * Second))"
      and fn = "uploadChunk e url" and s = bw and n = 3]
    uploadChunk_extends [where P = P and url = url and e = e, OF assms] time_Sleep_extends [of P]
  by simp

lemma retry_completeUpload_extends:
  assumes "\<And>tok bodyJson rep.
      json_Marshal e \<lparr>bodyUploadKey = uploadKey job, bodySize = fileSize job\<rparr> = Inr bodyJson
      \<Longrightarrow> P (completeRequest e job tok bodyJson) rep"
  shows "extendsBy P w (snd (retry_completeUpload e job w))"
  unfolding retry_completeUpload_def
  using retry_Do_extends [where proj = id and P = P and sleep = "time_Sleep (3 * Second)"
      and fn = "completeUpload e job" and s = w and n = 3]
    completeUpload_extends [where P = P and e = e and job = job, OF assms] time_Sleep_extends [of P]
  by simp


subsection \<open>Events of the loops\<close>

declare uploadFile_batches.simps [simp del]

lemma getParts_uploadKey [simp]: "getParts (job\<lparr>uploadKey := k\<rparr>) pc = getParts job pc"
  by (simp add: getParts_def)

lemma uploadFile_urls_extends:
  assumes "\<And>url b rep. P (chunkRequest url b) rep"
  shows "extendsBy P w (snd (snd (uploadFile_urls e urls f w)))"
proof (induction urls arbitrary: f w)
  case Nil
  show ?case by (simp add: extendsBy_refl)
next
  case (Cons url urls)
  obtain bs err f1 where rd: "file_Read f (nat defaultSize) = (bs, err, f1)"
    by (cases "file_Read f (nat defaultSize)")
  obtain ru b1 w1 where up: "retry_uploadChunk e url (bs, w) = (ru, (b1, w1))"
    by (cases "retry_uploadChunk e url (bs, w)") auto
  from retry_uploadChunk_extends [where P = P and url = url and e = e and bw = "(bs, w)", OF assms] up
  have e1: "extendsBy P w w1" by simp
  from e1 Cons.IH [where f = f1 and w = w1] have e2: "extendsBy P w (snd (snd (uploadFile_urls e urls f1 w1)))"
    by (rule extendsBy_trans)
  show ?case
    using rd up e1 e2 Cons.IH [where f = f1 and w = w]
    by (cases ru) (simp_all add: extendsBy_refl)
qed

lemma uploadFile_batches_step:
  assumes "i < numberOfBatches job"
  shows "uploadFile_batches e i pc job f w =
     (case retry_getSignedUploadUrls e job (i * maxParts + 1) (getParts job pc) w of
        (Inl err, w1) \<Rightarrow> (Some (SignedUrlsError (i * maxParts + 1) (getParts job pc) err), job, f, w1)
      | (Inr u, w1) \<Rightarrow>
          (case uploadFile_urls e (Urls u) f w1 of
             (Some err, f1, w2) \<Rightarrow>
               (Some err, (if i = 0 then job\<lparr>uploadKey := UploadKey u\<rparr> else job), f1, w2)
           | (None, f1, w2) \<Rightarrow>
               uploadFile_batches e (i + 1) (pc + maxParts)
                 (if i = 0 then job\<lparr>uploadKey := UploadKey u\<rparr> else job) f1 w2))"
  using assms
  by (subst uploadFile_batches.simps) (simp add: Let_def split: prod.split sum.split option.split)

lemma uploadFile_batches_done:
  assumes "\<not> i < numberOfBatches job"
  shows "uploadFile_batches e i pc job f w = (None, job, f, w)"
  using assms by (subst uploadFile_batches.simps) simp

lemma uploadFile_batches_extends_pos:
  assumes "uploadFile_batches e i pc job f w = (r, job', f', w')"
    and "1 \<le> i" and "pc = i * maxParts"
    and gets: "\<And>j tok rep. i \<le> j \<Longrightarrow> j < numberOfBatches job \<Longrightarrow>
          P (signedUrlsRequest e job tok (j * maxParts + 1) (getParts job (j * maxParts))) rep"
    and puts: "\<And>url b rep. P (chunkRequest url b) rep"
  shows "job' = job \<and> extendsBy P w w'"
  using assms(1-4)
proof (induction "nat (numberOfBatches job - i)" arbitrary: i pc f w rule: less_induct)
  case less
  show ?case
  proof (cases "i < numberOfBatches job")
    case False
    with less.prems(1) show ?thesis
      by (simp add: uploadFile_batches_done extendsBy_refl)
  next
    case True
    obtain rg w1 where g:
      "retry_getSignedUploadUrls e job (i * maxParts + 1) (getParts job pc) w = (rg, w1)"
      by (cases "retry_getSignedUploadUrls e job (i * maxParts + 1) (getParts job pc) w")
    have "extendsBy P w (snd (retry_getSignedUploadUrls e job (i * maxParts + 1) (getParts job pc) w))"
      using less.prems(3) True less.prems(4) [of i] 
      by (intro retry_getSignedUploadUrls_extends) simp
    with g have e1: "extendsBy P w w1" by simp
    show ?thesis
    proof (cases rg)
      case (Inl err)
      with True g less.prems(1) e1 show ?thesis
        by (simp add: uploadFile_batches_step)
    next
      case (Inr u)
      obtain ru f1 w2 where us: "uploadFile_urls e (Urls u) f w1 = (ru, f1, w2)"
        by (cases "uploadFile_urls e (Urls u) f w1")
      from uploadFile_urls_extends [where P = P and e = e and urls = "Urls u" and f = f and w = w1, OF puts] us
      have e2: "extendsBy P w1 w2" by simp
      with e1 have e12: "extendsBy P w w2" by (rule extendsBy_trans)
      show ?thesis
      proof (cases ru)
        case (Some err)
        with True g Inr us less.prems(1,2) e12 show ?thesis
          by (simp add: uploadFile_batches_step)
      next
        case None
        with True g Inr us less.prems(1,2)
        have rec: "uploadFile_batches e (i + 1) (pc + maxParts) job f1 w2 = (r, job', f', w')"
          by (simp add: uploadFile_batches_step)
        have "job' = job \<and> extendsBy P w2 w'"
        proof (rule less.hyps [OF _ rec])
          show "nat (numberOfBatches job - (i + 1)) < nat (numberOfBatches job - i)"
            using True by simp
          show "1 \<le> i + 1" using less.prems(2) by simp
          show "pc + maxParts = (i + 1) * maxParts"
            using less.prems(3) by (simp add: algebra_simps)
          show "\<And>j tok rep. i + 1 \<le> j \<Longrightarrow> j < numberOfBatches job \<Longrightarrow>
              P (signedUrlsRequest e job tok (j * maxParts + 1) (getParts job (j * maxParts))) rep"
            using less.prems(4) by simp
        qed
        with e12 show ?thesis by (blast intro: extendsBy_trans)
      qed
    qed
  qed
qed


lemma uploadFile_batches_extends_zero:
  assumes run: "uploadFile_batches e 0 0 job f w = (r, job', f', w')"
    and first: "\<And>tok rep. 0 < numberOfBatches job \<Longrightarrow>
          P (signedUrlsRequest e job tok 1 (getParts job 0)) rep"
    and later: "\<And>j tok rep. 1 \<le> j \<Longrightarrow> j < numberOfBatches job \<Longrightarrow>
          P (signedUrlsRequest e job' tok (j * maxParts + 1) (getParts job (j * maxParts))) rep"
    and puts: "\<And>url b rep. P (chunkRequest url b) rep"
  shows "extendsBy P w w' \<and> (\<exists>k. job' = job\<lparr>uploadKey := k\<rparr>)"
proof (cases "0 < numberOfBatches job")
  case False
  with run have "job' = job" "w' = w"
    by (simp_all add: uploadFile_batches_done)
  moreover have "job = job\<lparr>uploadKey := uploadKey job\<rparr>" by simp
  ultimately show ?thesis
    using extendsBy_refl by metis
next
  case True
  obtain rg w1 where g: "retry_getSignedUploadUrls e job 1 (getParts job 0) w = (rg, w1)"
    by (cases "retry_getSignedUploadUrls e job 1 (getParts job 0) w")
  from retry_getSignedUploadUrls_extends [where P = P and e = e and job = job and firstPart = 1
      and parts = "getParts job 0" and w = w, OF first [OF True]] g
  have e1: "extendsBy P w w1" by simp
  show ?thesis
  proof (cases rg)
    case (Inl err)
    with True g run have "job' = job" "w' = w1"
      by (simp_all add: uploadFile_batches_step)
    moreover have "job = job\<lparr>uploadKey := uploadKey job\<rparr>" by simp
    ultimately show ?thesis
      using e1 by metis
  next
    case (Inr u)
    define job1 where "job1 = job\<lparr>uploadKey := UploadKey u\<rparr>"
    obtain ru f1 w2 where us: "uploadFile_urls e (Urls u) f w1 = (ru, f1, w2)"
      by (cases "uploadFile_urls e (Urls u) f w1")
    from uploadFile_urls_extends [where P = P and e = e and urls = "Urls u" and f = f and w = w1, OF puts] us
    have "extendsBy P w1 w2" by simp
    with e1 have e12: "extendsBy P w w2" by (rule extendsBy_trans)
    show ?thesis
    proof (cases ru)
      case (Some err)
      with True g Inr us run have "job' = job1" "w' = w2"
        by (simp_all add: uploadFile_batches_step job1_def)
      with e12 show ?thesis by (auto simp: job1_def)
    next
      case None
      with True g Inr us run
      have rec: "uploadFile_batches e 1 maxParts job1 f1 w2 = (r, job', f', w')"
        by (simp add: uploadFile_batches_step job1_def)
      have same: "job' = job1"
        using uploadFile_batches_extends_pos [where P = "\<lambda>_ _. True", OF rec] by simp
      have "job' = job1 \<and> extendsBy P w2 w'"
      proof (rule uploadFile_batches_extends_pos [OF rec])
        show "(1::int) \<le> 1" by simp
        show "maxParts = 1 * maxParts" by simp
        show "\<And>j tok rep. 1 \<le> j \<Longrightarrow> j < numberOfBatches job1 \<Longrightarrow>
            P (signedUrlsRequest e job1 tok (j * maxParts + 1) (getParts job1 (j * maxParts))) rep"
          using later same by (simp add: job1_def)
        show "\<And>url b rep. P (chunkRequest url b) rep" by (rule puts)
      qed
      with e12 show ?thesis
        by (auto simp: job1_def intro: extendsBy_trans)
    qed
  qed
qed

lemma uploadFile_extends:
  assumes run: "uploadFile e job w = (ret, job', w')"
    and first: "\<And>tok rep. 0 < numberOfBatches job \<Longrightarrow>
          P (signedUrlsRequest e job tok 1 (getParts job 0)) rep"
    and later: "\<And>j tok rep. 1 \<le> j \<Longrightarrow> j < numberOfBatches job \<Longrightarrow>
          P (signedUrlsRequest e job' tok (j * maxParts + 1) (getParts job (j * maxParts))) rep"
    and puts: "\<And>url b rep. P (chunkRequest url b) rep"
    and posts: "\<And>tok bodyJson rep.
          json_Marshal e \<lparr>bodyUploadKey = uploadKey job', bodySize = fileSize job\<rparr> = Inr bodyJson
          \<Longrightarrow> P (completeRequest e job' tok bodyJson) rep"
  shows "extendsBy P w w' \<and> (\<exists>k. job' = job\<lparr>uploadKey := k\<rparr>)"
proof (cases "os_Open e (fileToUpload job)")
  case (Inl err)
  with run have "job' = job" "w' = w"
    by (simp_all add: uploadFile_def Let_def)
  moreover have "job = job\<lparr>uploadKey := uploadKey job\<rparr>" by simp
  ultimately show ?thesis
    using extendsBy_refl by metis
next
  case (Inr f)
  obtain lr job1 f1 w1 where loop: "uploadFile_batches e 0 0 job f w = (lr, job1, f1, w1)"
    by (cases "uploadFile_batches e 0 0 job f w")
  have j1: "job' = job1"
    using run Inr loop
    by (cases lr; cases "retry_completeUpload e job1 w1"; cases "fst (retry_completeUpload e job1 w1)")
       (simp_all add: uploadFile_def Let_def)
  from uploadFile_batches_extends_zero [where P = P, OF loop first _ puts] later j1
  have e1: "extendsBy P w w1" and k: "\<exists>k. job1 = job\<lparr>uploadKey := k\<rparr>"
    by simp_all
  show ?thesis
  proof (cases lr)
    case (Some err)
    with run Inr loop have "w' = w1"
      by (simp add: uploadFile_def Let_def)
    with e1 k j1 show ?thesis by simp
  next
    case None
    obtain rc w2 where c: "retry_completeUpload e job1 w1 = (rc, w2)"
      by (cases "retry_completeUpload e job1 w1")
    with run Inr loop None have w2: "w' = w2"
      by (cases rc) (simp_all add: uploadFile_def Let_def)
    from k obtain key where "job1 = job\<lparr>uploadKey := key\<rparr>" ..
    then have fs: "fileSize job1 = fileSize job" by simp
    have "extendsBy P w1 (snd (retry_completeUpload e job1 w1))"
      using posts j1 fs by (intro retry_completeUpload_extends) simp
    with c e1 w2 have "extendsBy P w w'"
      by (auto intro: extendsBy_trans)
    with k j1 show ?thesis by simp
  qed
qed

subsection \<open>Decimal strings\<close>

lemma digit_inj:
  assumes "a < 10" "b < 10" "''0123456789'' ! a = ''0123456789'' ! b"
  shows "a = b"
proof -
  have "distinct ''0123456789''" by simp
  moreover have "a < length ''0123456789''" "b < length ''0123456789''"
    using assms by simp_all
  ultimately show ?thesis
    using assms(3) by (simp only: nth_eq_iff_index_eq)
qed

lemma digits_length: "(length (digits n) = 1) = (n < 10)"
proof (induction n rule: digits.induct)
  case (1 n)
  show ?case
  proof (cases "n < 10")
    case True
    then show ?thesis by (simp add: digits.simps)
  next
    case False
    have "digits (n div 10) \<noteq> []"
      by (subst digits.simps) simp
    with False show ?thesis
      by (subst digits.simps) simp
  qed
qed

lemma digits_inj: "digits a = digits b \<Longrightarrow> a = b"
proof (induction a arbitrary: b rule: digits.induct)
  case (1 n)
  show ?case
  proof (cases "n < 10")
    case True
    with "1.prems" digits_length [of b] digits_length [of n] have b: "b < 10" by simp
    with True "1.prems" show ?thesis
      by (simp add: digits.simps [of n] digits.simps [of b] digit_inj)
  next
    case False
    with "1.prems" digits_length [of b] digits_length [of n] have b: "\<not> b < 10" by simp
    with False "1.prems"
    have "digits (n div 10) = digits (b div 10)"
      and "''0123456789'' ! (n mod 10) = ''0123456789'' ! (b mod 10)"
      by (simp_all add: digits.simps [of n] digits.simps [of b])
    with "1.IH" [OF False, of "b div 10"] have "n div 10 = b div 10" and "n mod 10 = b mod 10"
      by (simp_all add: digit_inj)
    then show ?thesis
      by (metis div_mult_mod_eq)
  qed
qed

lemma Itoa_inj: "0 \<le> a \<Longrightarrow> 0 \<le> b \<Longrightarrow> Itoa a = Itoa b \<Longrightarrow> a = b"
  by (auto simp: Itoa_def dest: digits_inj)

lemma Itoa_first_batch:
  assumes "0 \<le> i"
  shows "Itoa (i * maxParts + 1) = ''1'' \<longleftrightarrow> i = 0"
proof -
  have one: "Itoa 1 = ''1''"
    by (simp add: Itoa_def digits.simps)
  have "0 \<le> i * maxParts + 1" using assms by (simp add: maxParts_def)
  with Itoa_inj [of "i * maxParts + 1" 1] one show ?thesis
    by (auto simp: maxParts_def)
qed

subsection \<open>Requests\<close>

lemma Itoa_0: "Itoa 0 = ''0''"
  by (simp add: Itoa_def digits.simps)


lemma signedUrlsRequest_simps [simp]:
  "Method (signedUrlsRequest e job tok firstPart parts) = ''GET''"
  "map_of (Query (signedUrlsRequest e job tok firstPart parts)) ''firstPart'' = Some (Itoa firstPart)"
  "map_of (Query (signedUrlsRequest e job tok firstPart parts)) ''parts'' = Some (Itoa parts)"
  "map_of (Query (signedUrlsRequest e job tok firstPart parts)) ''uploadKey'' =
     (if uploadKey job = [] then None else Some (uploadKey job))"
  "Body (signedUrlsRequest e job tok firstPart parts) = []"
  by (simp_all add: signedUrlsRequest_def)

lemma chunkRequest_simps [simp]:
  "Method (chunkRequest url b) = ''PUT''" "URL (chunkRequest url b) = url"
  "Body (chunkRequest url b) = b" "ContentLength (chunkRequest url b) = int (length b)"
  by (simp_all add: chunkRequest_def)

lemma completeRequest_simps [simp]:
  "Method (completeRequest e job tok body) = ''POST''" "Body (completeRequest e job tok body) = body"
  by (simp_all add: completeRequest_def)

lemma getParts_min: "getParts job pc = min maxParts (totalParts job - pc)"
  by (simp add: getParts_def Let_def min_def)

subsection \<open>Successful retries\<close>

lemma retry_Do_Inr:
  assumes fn: "\<And>s. G s (snd (fn s))" and sl: "\<And>s. G s (sleep s)"
    and refl: "\<And>s. G s s" and trans: "\<And>a b c. G a b \<Longrightarrow> G b c \<Longrightarrow> G a c"
    and run: "retry_Do n sleep fn s = (Inr v, s')"
  shows "\<exists>s0. G s s0 \<and> fn s0 = (Inr v, s')"
  using run
proof (induction n arbitrary: s)
  case 0
  then show ?case by simp
next
  case (Suc n)
  obtain r sa where step: "fn s = (r, sa)" by (cases "fn s")
  show ?case
  proof (cases r)
    case (Inr v')
    with step Suc.prems have "fn s = (Inr v, s')" by simp
    with refl show ?thesis by blast
  next
    case (Inl err)
    with step Suc.prems have n: "n \<noteq> 0" and rec: "retry_Do n sleep fn (sleep sa) = (Inr v, s')"
      by (simp_all split: if_splits)
    from Suc.IH [OF rec] obtain s0 where "G (sleep sa) s0" and s0: "fn s0 = (Inr v, s')"
      by blast
    moreover from fn [of s] step have "G s sa" by simp
    ultimately have "G s s0"
      using sl [of sa] by (blast intro: trans)
    with s0 show ?thesis by blast
  qed
qed

lemma retry_getSignedUploadUrls_Inr:
  assumes "retry_getSignedUploadUrls e job firstPart parts w = (Inr u, w')"
  shows "extendsBy (\<lambda>_ _. True) w w' \<and>
         (\<exists>tok rep. HttpCall (signedUrlsRequest e job tok firstPart parts) rep \<in> set (newEvents w w') \<and>
            signedUrlsResult e rep = Inr u)"
proof -
  have fn: "\<And>s. extendsBy (\<lambda>_ _. True) s (snd (getSignedUploadUrls e job firstPart parts s))"
    by (rule getSignedUploadUrls_extends) simp
  have "\<exists>w0. extendsBy (\<lambda>_ _. True) w w0 \<and>
          getSignedUploadUrls e job firstPart parts w0 = (Inr u, w')"
  proof (rule retry_Do_Inr [where G = "extendsBy (\<lambda>_ _. True)" and sleep = "time_Sleep (3 * Second)"
        and n = 3])
    show "\<And>s. extendsBy (\<lambda>_ _. True) s (snd (getSignedUploadUrls e job firstPart parts s))"
      by (rule fn)
    show "\<And>s. extendsBy (\<lambda>_ _. True) s (time_Sleep (3 * Second) s)"
      by (rule time_Sleep_extends)
    show "\<And>s. extendsBy (\<lambda>_ _. True) s s"
      by (rule extendsBy_refl)
    show "\<And>a b c. extendsBy (\<lambda>_ _. True) a b \<Longrightarrow> extendsBy (\<lambda>_ _. True) b c
        \<Longrightarrow> extendsBy (\<lambda>_ _. True) a c"
      by (rule extendsBy_trans)
    show "retry_Do 3 (time_Sleep (3 * Second)) (getSignedUploadUrls e job firstPart parts) w = (Inr u, w')"
      using assms by (simp add: retry_getSignedUploadUrls_def)
  qed
  then obtain w0 where w0: "extendsBy (\<lambda>_ _. True) w w0"
    and last: "getSignedUploadUrls e job firstPart parts w0 = (Inr u, w')"
    by blast
  from fn [of w0] last have w1: "extendsBy (\<lambda>_ _. True) w0 w'" by simp
  from last obtain tok rep
    where "w' = w0 @ [TokenCall ''data:write data:read'' (Inr tok),
                      HttpCall (signedUrlsRequest e job tok firstPart parts) rep]"
      and "signedUrlsResult e rep = Inr u"
    by (auto simp: getSignedUploadUrls_eq split: sum.splits option.splits)
  then have "HttpCall (signedUrlsRequest e job tok firstPart parts) rep \<in> set (newEvents w0 w')"
    and "signedUrlsResult e rep = Inr u"
    by (simp_all add: newEvents_def)
  with extendsBy_newEvents [OF w0 w1] extendsBy_trans [OF w0 w1] show ?thesis
    by auto
qed

subsection \<open>Structure of a run\<close>

lemma newEvents_mono:
  assumes "extendsBy P a b" and "extendsBy Q b c"
  shows "set (newEvents a b) \<subseteq> set (newEvents a c)" and "set (newEvents b c) \<subseteq> set (newEvents a c)"
proof -
  from assms(1) obtain xs where b: "b = a @ xs" by (rule extendsByE)
  from assms(2) obtain ys where c: "c = b @ ys" by (rule extendsByE)
  show "set (newEvents a b) \<subseteq> set (newEvents a c)" and "set (newEvents b c) \<subseteq> set (newEvents a c)"
    by (simp_all add: b c newEvents_def)
qed

lemma uploadFile_batches_all_requested:
  assumes "uploadFile_batches e i pc job f w = (None, job', f', w')"
    and "0 \<le> i" and "pc = i * maxParts" and "i \<le> j" and "j < numberOfBatches job"
  shows "\<exists>req rep. HttpCall req rep \<in> set (newEvents w w') \<and> Method req = ''GET'' \<and>
           map_of (Query req) ''firstPart'' = Some (Itoa (j * maxParts + 1)) \<and>
           map_of (Query req) ''parts'' = Some (Itoa (getParts job (j * maxParts)))"
  using assms
proof (induction "nat (numberOfBatches job - i)" arbitrary: i pc job f w rule: less_induct)
  case less
  from less.prems have more: "i < numberOfBatches job" by simp
  obtain rg w1 where g:
    "retry_getSignedUploadUrls e job (i * maxParts + 1) (getParts job pc) w = (rg, w1)"
    by (cases "retry_getSignedUploadUrls e job (i * maxParts + 1) (getParts job pc) w")
  from more g less.prems(1) obtain u where rg: "rg = Inr u"
    by (cases rg) (simp_all add: uploadFile_batches_step)
  define job1 where "job1 = (if i = 0 then job\<lparr>uploadKey := UploadKey u\<rparr> else job)"
  obtain ru f1 w2 where us: "uploadFile_urls e (Urls u) f w1 = (ru, f1, w2)"
    by (cases "uploadFile_urls e (Urls u) f w1")
  from more g rg us less.prems(1) have ru: "ru = None"
    by (cases ru) (simp_all add: uploadFile_batches_step)
  with more g rg us less.prems(1)
  have rec: "uploadFile_batches e (i + 1) (pc + maxParts) job1 f1 w2 = (None, job', f', w')"
    by (simp add: uploadFile_batches_step job1_def)
  have nb: "numberOfBatches job1 = numberOfBatches job" and gp: "getParts job1 = getParts job"
    by (simp_all add: job1_def fun_eq_iff)
  from retry_getSignedUploadUrls_Inr [OF g [unfolded rg]]
  obtain tok rep where e1: "extendsBy (\<lambda>_ _. True) w w1"
    and sent: "HttpCall (signedUrlsRequest e job tok (i * maxParts + 1) (getParts job pc)) rep
                 \<in> set (newEvents w w1)"
    by blast
  from uploadFile_urls_extends [where P = "\<lambda>_ _. True" and e = e and urls = "Urls u" and f = f and w = w1] us
  have e2: "extendsBy (\<lambda>_ _. True) w1 w2" by simp
  from uploadFile_batches_extends_pos [where P = "\<lambda>_ _. True", OF rec] less.prems(2,3)
  have e3: "extendsBy (\<lambda>_ _. True) w2 w'" by (simp add: algebra_simps)
  have e12: "extendsBy (\<lambda>_ _. True) w w2" using e1 e2 by (rule extendsBy_trans)
  have e23: "extendsBy (\<lambda>_ _. True) w1 w'" using e2 e3 by (rule extendsBy_trans)
  show ?case
  proof (cases "j = i")
    case True
    from sent newEvents_mono(1) [OF e1 e23]
    have "HttpCall (signedUrlsRequest e job tok (i * maxParts + 1) (getParts job pc)) rep
            \<in> set (newEvents w w')"
      by blast
    with True less.prems(3) show ?thesis
      by (intro exI [of _ "signedUrlsRequest e job tok (i * maxParts + 1) (getParts job pc)"]
          exI [of _ rep]) simp
  next
    case False
    have "\<exists>req rep. HttpCall req rep \<in> set (newEvents w2 w') \<and> Method req = ''GET'' \<and>
           map_of (Query req) ''firstPart'' = Some (Itoa (j * maxParts + 1)) \<and>
           map_of (Query req) ''parts'' = Some (Itoa (getParts job1 (j * maxParts)))"
    proof (rule less.hyps [OF _ rec])
      show "nat (numberOfBatches job1 - (i + 1)) < nat (numberOfBatches job - i)"
        using more nb by simp
      show "0 \<le> i + 1" using less.prems(2) by simp
      show "pc + maxParts = (i + 1) * maxParts"
        using less.prems(3) by (simp add: algebra_simps)
      show "i + 1 \<le> j" using False less.prems(4) by simp
      show "j < numberOfBatches job1" using less.prems(5) nb by simp
    qed
    with newEvents_mono(2) [OF e12 e3] gp show ?thesis
      by auto
  qed
qed


lemma uploadFile_cases:
  assumes "uploadFile e job w = (ret, job', w')"
  obtains (noFile) err where "os_Open e (fileToUpload job) = Inl err"
      "ret = (zeroUploadResult, Some err)" "job' = job" "w' = w"
  | (aborted) f loopErr f1 where "os_Open e (fileToUpload job) = Inr f"
      "uploadFile_batches e 0 0 job f w = (Some loopErr, job', f1, w')"
      "ret = (zeroUploadResult, None)"
  | (finalized) f f1 w1 rc where "os_Open e (fileToUpload job) = Inr f"
      "uploadFile_batches e 0 0 job f w = (None, job', f1, w1)"
      "retry_completeUpload e job' w1 = (rc, w')"
      "ret = (case rc of Inl err \<Rightarrow> (zeroUploadResult, Some (CompleteUploadError err))
              | Inr res \<Rightarrow> (res, None))"
proof (cases "os_Open e (fileToUpload job)")
  case (Inl err)
  with assms have "ret = (zeroUploadResult, Some err)" "job' = job" "w' = w"
    by (simp_all add: uploadFile_def Let_def)
  with Inl show ?thesis by (rule noFile)
next
  case (Inr f)
  obtain lr job1 f1 w1 where loop: "uploadFile_batches e 0 0 job f w = (lr, job1, f1, w1)"
    by (cases "uploadFile_batches e 0 0 job f w")
  show ?thesis
  proof (cases lr)
    case (Some loopErr)
    with assms Inr loop have "ret = (zeroUploadResult, None)" "job' = job1" "w' = w1"
      by (simp_all add: uploadFile_def Let_def)
    with Inr loop Some show ?thesis by (intro aborted) simp_all
  next
    case None
    obtain rc w2 where c: "retry_completeUpload e job1 w1 = (rc, w2)"
      by (cases "retry_completeUpload e job1 w1")
    with assms Inr loop None
    have "ret = (case rc of Inl err \<Rightarrow> (zeroUploadResult, Some (CompleteUploadError err))
              | Inr res \<Rightarrow> (res, None))" "job' = job1" "w' = w2"
      by (cases rc; simp add: uploadFile_def Let_def)+
    with Inr loop None c show ?thesis by (intro finalized) simp_all
  qed
qed


lemma uploadFile_batches_no_post:
  assumes "uploadFile_batches e 0 0 job f w = (r, job', f', w')"
  shows "extendsBy (\<lambda>req rep. Method req \<noteq> ''POST'') w w'"
  using uploadFile_batches_extends_zero [where P = "\<lambda>req rep. Method req \<noteq> ''POST''", OF assms]
  by simp

subsection \<open>Runs with healthy collaborators\<close>

lemma healthy_getSignedUploadUrls:
  assumes "healthy e"
  shows "\<exists>u w'. retry_getSignedUploadUrls e job firstPart parts w = (Inr u, w')"
proof -
  from assms obtain tok where tok: "GetToken e w ''data:write data:read'' = Inr tok"
    unfolding healthy_def by blast
  from assms have url: "urlError e (getSignedS3UploadPath e job) = None"
    unfolding healthy_def by blast
  let ?rep = "client_Do e (w @ [TokenCall ''data:write data:read'' (Inr tok)])
                (signedUrlsRequest e job tok firstPart parts)"
  from assms obtain resp where resp: "outcome ?rep = Inr resp" "StatusCode resp = 200"
    unfolding healthy_def by blast
  from assms obtain u where u: "decodeSignedUploadUrls e resp = Inr u"
    unfolding healthy_def by blast
  from tok url resp u show ?thesis
    by (simp add: retry_getSignedUploadUrls_def numeral_3_eq_3 getSignedUploadUrls_eq
        signedUrlsResult_def)
qed

lemma healthy_uploadChunk:
  assumes "healthy e"
  shows "\<exists>b' w'. retry_uploadChunk e url (b, w) = (Inr (), (b', w'))"
proof -
  from assms have url: "urlError e url = None"
    unfolding healthy_def by blast
  from assms obtain resp where "outcome (client_Do e w (chunkRequest url b)) = Inr resp"
    "StatusCode resp = 200"
    unfolding healthy_def by blast
  with url show ?thesis
    by (simp add: retry_uploadChunk_def numeral_3_eq_3 uploadChunk_eq chunkResult_def)
qed

lemma healthy_urls:
  assumes "healthy e" and "readFault f = (\<lambda>p. None)"
  shows "\<exists>f' w'. uploadFile_urls e urls f w = (None, f', w') \<and> readFault f' = (\<lambda>p. None)"
  using assms(2)
proof (induction urls arbitrary: f w)
  case Nil
  then show ?case by simp
next
  case (Cons url urls)
  show ?case
  proof (cases "length (content f) \<le> pos f")
    case True
    with Cons.prems have "file_Read f (nat defaultSize) = ([], Some io_EOF, f)"
      by (simp add: file_Read_def)
    with Cons.IH [OF Cons.prems, of w] show ?thesis
      by simp
  next
    case False
    define bs where "bs = take (nat defaultSize) (drop (pos f) (content f))"
    define f1 where "f1 = f\<lparr>pos := pos f + length bs\<rparr>"
    from False Cons.prems have rd: "file_Read f (nat defaultSize) = (bs, None, f1)"
      by (simp add: file_Read_def Let_def bs_def f1_def)
    have f1: "readFault f1 = (\<lambda>p. None)"
      using Cons.prems by (simp add: f1_def)
    from healthy_uploadChunk [OF assms(1), of url bs w]
    obtain b' w1 where up: "retry_uploadChunk e url (bs, w) = (Inr (), (b', w1))"
      by blast
    from Cons.IH [OF f1, of w1] Cons.IH [OF f1, of w] rd up show ?thesis
      by simp
  qed
qed

lemma healthy_batches:
  assumes "healthy e" and "readFault f = (\<lambda>p. None)"
  shows "\<exists>job' f' w'. uploadFile_batches e i pc job f w = (None, job', f', w')"
  using assms(2)
proof (induction "nat (numberOfBatches job - i)" arbitrary: i pc job f w rule: less_induct)
  case less
  show ?case
  proof (cases "i < numberOfBatches job")
    case False
    then show ?thesis by (simp add: uploadFile_batches_done)
  next
    case True
    from healthy_getSignedUploadUrls [OF assms(1)]
    obtain u w1 where g:
      "retry_getSignedUploadUrls e job (i * maxParts + 1) (getParts job pc) w = (Inr u, w1)"
      by blast
    from healthy_urls [OF assms(1) less.prems]
    obtain f1 w2 where us: "uploadFile_urls e (Urls u) f w1 = (None, f1, w2)"
      and f1: "readFault f1 = (\<lambda>p. None)"
      by blast
    define job1 where "job1 = (if i = 0 then job\<lparr>uploadKey := UploadKey u\<rparr> else job)"
    have "nat (numberOfBatches job1 - (i + 1)) < nat (numberOfBatches job - i)"
      using True by (simp add: job1_def)
    from less.hyps [OF this f1, of "pc + maxParts" w2] True g us show ?thesis
      by (simp add: uploadFile_batches_step job1_def)
  qed
qed

lemma healthy_batchEnv: "healthy (batchEnv key sz)"
  by (simp add: healthy_def batchEnv_def exampleEnv_def partsServer_def partsDecode_def)


subsection \<open>The session token\<close>

lemma first_batch_token:
  assumes run: "uploadFile e job w = (ret, job', w')"
    and opened: "os_Open e (fileToUpload job) = Inr f"
    and batches: "0 < numberOfBatches job"
    and first: "retry_getSignedUploadUrls e job 1 (getParts job 0) w = (Inr u, w1)"
  shows "uploadKey job' = UploadKey u"
proof -
  obtain lr job1 f1 w2 where loop: "uploadFile_batches e 0 0 job f w = (lr, job1, f1, w2)"
    by (cases "uploadFile_batches e 0 0 job f w")
  from run opened loop have same: "job' = job1"
    by (cases rule: uploadFile_cases) simp_all
  obtain ru fa wa where us: "uploadFile_urls e (Urls u) f w1 = (ru, fa, wa)"
    by (cases "uploadFile_urls e (Urls u) f w1")
  show ?thesis
  proof (cases ru)
    case (Some err)
    with loop batches first us same show ?thesis
      by (auto simp: uploadFile_batches_step)
  next
    case None
    with loop batches first us
    have rec: "uploadFile_batches e 1 maxParts (job\<lparr>uploadKey := UploadKey u\<rparr>) fa wa = (lr, job1, f1, w2)"
      by (simp add: uploadFile_batches_step)
    from uploadFile_batches_extends_pos [where P = "\<lambda>_ _. True", OF rec] same show ?thesis
      by simp
  qed
qed

lemma later_requests_carry_key:
  assumes "uploadFile e job w = (ret, job', w')"
    and "HttpCall req rep \<in> set (newEvents w w')"
    and "Method req = ''GET''" and "map_of (Query req) ''firstPart'' \<noteq> Some ''1''"
  shows "map_of (Query req) ''uploadKey'' =
           (if uploadKey job' = [] then None else Some (uploadKey job'))"
proof -
  let ?later = "\<lambda>req (rep::reply). Method req = ''GET'' \<and> map_of (Query req) ''firstPart'' \<noteq> Some ''1'' \<longrightarrow>
            map_of (Query req) ''uploadKey'' =
              (if uploadKey job' = [] then None else Some (uploadKey job'))"
  have one: "Itoa 1 = ''1''"
    by (simp add: Itoa_def digits.simps)
  have "extendsBy ?later w w' \<and> (\<exists>k. job' = job\<lparr>uploadKey := k\<rparr>)"
    by (rule uploadFile_extends [OF assms(1)]) (simp_all add: one)
  with assms(2-) show ?thesis
    by (blast dest: extendsBy_calls)
qed

lemma finalize_carries_key:
  assumes "uploadFile e job w = (ret, job', w')"
    and "HttpCall req rep \<in> set (newEvents w w')" and "Method req = ''POST''"
  shows "json_Marshal e \<lparr>bodyUploadKey = uploadKey job', bodySize = fileSize job\<rparr> = Inr (Body req)"
proof -
  let ?final = "\<lambda>req (rep::reply). Method req = ''POST'' \<longrightarrow>
      json_Marshal e \<lparr>bodyUploadKey = uploadKey job', bodySize = fileSize job\<rparr> = Inr (Body req)"
  have "extendsBy ?final w w' \<and> (\<exists>k. job' = job\<lparr>uploadKey := k\<rparr>)"
    by (rule uploadFile_extends [OF assms(1)]) simp_all
  with assms(2-) show ?thesis
    by (blast dest: extendsBy_calls)
qed


subsection \<open>The example scenarios\<close>

lemma smallJob_new: "newUploadJob smallEnv exampleApi ''bucket'' ''object'' ''small.bin'' = (smallJob, None)"
  by (simp add: newUploadJob_def smallEnv_def exampleEnv_def smallJob_def Let_def
      minutesExpiration_const_def defaultSize_def megaByte_def maxParts_def signed_divide_int_def)

lemma smallEnv_simps [simp]:
  "GetToken smallEnv w scope = Inr ''token''"
  "urlError smallEnv url = None"
  "client_Do smallEnv = constServer 200 []"
  "decodeSignedUploadUrls smallEnv = constDecode ''K'' [''https://s3/part1'']"
  "os_Open smallEnv path = Inr (exampleFile ''abc'')"
  "json_Marshal smallEnv b = Inr (bodyUploadKey b @ '':'' @ Itoa (bodySize b))"
  "decodeUploadResult smallEnv resp = Inr \<lparr>ObjectId = RespBody resp, ResultSize = 0, Location = []\<rparr>"
  by (simp_all add: smallEnv_def exampleEnv_def)

lemma busyEnv_simps [simp]:
  "GetToken busyEnv w scope = Inr ''token''"
  "urlError busyEnv url = None"
  "client_Do busyEnv = constServer 500 ''busy''"
  "decodeSignedUploadUrls busyEnv = constDecode ''K'' [''https://s3/part1'']"
  "os_Open busyEnv path = Inr (exampleFile ''abc'')"
  by (simp_all add: busyEnv_def exampleEnv_def)

lemma Itoa_small [simp]: "Itoa 0 = ''0''" "Itoa 1 = ''1''" "Itoa 3 = ''3''" "Itoa 60 = ''60''"
  by (simp_all add: Itoa_def digits.simps)

lemma smallRun:
  "uploadFile smallEnv smallJob [] =
     ((\<lparr>ObjectId = [], ResultSize = 0, Location = []\<rparr>, None),
      smallJob\<lparr>uploadKey := ''K''\<rparr>, smallTrace)"
proof -
  have get: "retry_getSignedUploadUrls smallEnv smallJob 1 1 [] =
      (Inr \<lparr>UploadKey = ''K'', Urls = [''https://s3/part1'']\<rparr>, take 2 smallTrace)"
    by (simp add: retry_getSignedUploadUrls_def numeral_3_eq_3 getSignedUploadUrls_eq
        signedUrlsResult_def constServer_def constDecode_def smallTrace_def okReply_def
        signedUrlsRequest_def)
  have put: "retry_uploadChunk smallEnv ''https://s3/part1'' (''abc'', take 2 smallTrace) =
      (Inr (), ([], take 3 smallTrace))"
    by (simp add: retry_uploadChunk_def numeral_3_eq_3 uploadChunk_eq chunkResult_def
        constServer_def smallTrace_def okReply_def chunkRequest_def)
  have urls: "uploadFile_urls smallEnv [''https://s3/part1''] (exampleFile ''abc'') (take 2 smallTrace) =
      (None, (exampleFile ''abc'')\<lparr>pos := 3\<rparr>, take 3 smallTrace)"
    by (simp add: file_Read_def exampleFile_def defaultSize_def megaByte_def put Let_def
        numeral_3_eq_3)
  have loop: "uploadFile_batches smallEnv 0 0 smallJob (exampleFile ''abc'') [] =
      (None, smallJob\<lparr>uploadKey := ''K''\<rparr>, (exampleFile ''abc'')\<lparr>pos := 3\<rparr>, take 3 smallTrace)"
    by (simp add: uploadFile_batches_step [of 0 smallJob] uploadFile_batches_done
        smallJob_def [THEN arg_cong, of numberOfBatches] getParts_def maxParts_def
        smallJob_def [THEN arg_cong, of totalParts] get urls del: uploadFile_urls.simps)
  have final: "retry_completeUpload smallEnv (smallJob\<lparr>uploadKey := ''K''\<rparr>) (take 3 smallTrace) =
      (Inr \<lparr>ObjectId = [], ResultSize = 0, Location = []\<rparr>, smallTrace)"
    by (simp add: retry_completeUpload_def numeral_3_eq_3 completeUpload_eq completeResult_def
        constServer_def smallTrace_def okReply_def completeRequest_def smallJob_def)
  show ?thesis
    by (simp add: uploadFile_def Let_def loop final)
qed



lemma exampleEnv_simps [simp]:
  "GetToken (exampleEnv sz f server decode) w scope = Inr ''token''"
  "urlError (exampleEnv sz f server decode) url = None"
  "client_Do (exampleEnv sz f server decode) = server"
  "decodeSignedUploadUrls (exampleEnv sz f server decode) = decode"
  "os_Open (exampleEnv sz f server decode) path = Inr f"
  "os_Stat (exampleEnv sz f server decode) path = Inr sz"
  "json_Marshal (exampleEnv sz f server decode) b = Inr (bodyUploadKey b @ '':'' @ Itoa (bodySize b))"
  "decodeUploadResult (exampleEnv sz f server decode) resp =
     Inr \<lparr>ObjectId = RespBody resp, ResultSize = 0, Location = []\<rparr>"
  by (simp_all add: exampleEnv_def)

lemma smallJob_simps [simp]:
  "numberOfBatches smallJob = 1" "totalParts smallJob = 1" "fileToUpload smallJob = ''small.bin''"
  "uploadKey smallJob = []" "fileSize smallJob = 3"
  by (simp_all add: smallJob_def)

lemma busyRun:
  "uploadFile_batches busyEnv 0 0 smallJob (exampleFile ''abc'') [] =
     (Some (SignedUrlsError 1 1 (StatusError 500 ''busy'')), smallJob, exampleFile ''abc'', busyTrace)"
  by (simp add: uploadFile_batches_step [of 0 smallJob] getParts_def maxParts_def
      retry_getSignedUploadUrls_def numeral_3_eq_3 getSignedUploadUrls_eq signedUrlsResult_def
      constServer_def busyTrace_def replyWith_def time_Sleep_def)

lemma putFailRun:
  "uploadFile_batches putFailEnv 0 0 smallJob (exampleFile ''abc'') [] =
     (Some (ChunkUploadError ''https://s3/part1'' (StatusError 500 ''busy'')),
      smallJob\<lparr>uploadKey := ''K''\<rparr>, (exampleFile ''abc'')\<lparr>pos := 3\<rparr>, putFailTrace)"
proof -
  have get: "retry_getSignedUploadUrls putFailEnv smallJob 1 1 [] =
      (Inr \<lparr>UploadKey = ''K'', Urls = [''https://s3/part1'']\<rparr>, take 2 putFailTrace)"
    by (simp add: retry_getSignedUploadUrls_def numeral_3_eq_3 getSignedUploadUrls_eq
        signedUrlsResult_def putFailServer_def constDecode_def putFailTrace_def replyWith_def
        putFailEnv_def)
  have put: "retry_uploadChunk putFailEnv ''https://s3/part1'' (''abc'', take 2 putFailTrace) =
      (Inl (StatusError 500 ''busy''), ([], putFailTrace))"
    by (simp add: retry_uploadChunk_def numeral_3_eq_3 uploadChunk_eq chunkResult_def
        putFailServer_def putFailTrace_def replyWith_def putFailEnv_def time_Sleep_def)
  have urls: "uploadFile_urls putFailEnv [''https://s3/part1''] (exampleFile ''abc'') (take 2 putFailTrace) =
      (Some (ChunkUploadError ''https://s3/part1'' (StatusError 500 ''busy'')),
       (exampleFile ''abc'')\<lparr>pos := 3\<rparr>, putFailTrace)"
    by (simp add: file_Read_def exampleFile_def defaultSize_def megaByte_def put Let_def
        numeral_3_eq_3)
  show ?thesis
    by (simp add: uploadFile_batches_step [of 0 smallJob] getParts_def maxParts_def get urls
        del: uploadFile_urls.simps)
qed

lemma brokenRun:
  "uploadFile_batches brokenEnv 0 0 smallJob brokenFile [] =
     (Some (ReadFileError (LibError ''input/output error'')),
      smallJob\<lparr>uploadKey := ''K''\<rparr>, brokenFile, brokenTrace)"
proof -
  have get: "retry_getSignedUploadUrls brokenEnv smallJob 1 1 [] =
      (Inr \<lparr>UploadKey = ''K'', Urls = [''https://s3/part1'']\<rparr>, brokenTrace)"
    by (simp add: retry_getSignedUploadUrls_def numeral_3_eq_3 getSignedUploadUrls_eq
        signedUrlsResult_def constServer_def constDecode_def brokenTrace_def replyWith_def
        brokenEnv_def)
  have urls: "uploadFile_urls brokenEnv [''https://s3/part1''] brokenFile brokenTrace =
      (Some (ReadFileError (LibError ''input/output error'')), brokenFile, brokenTrace)"
    by (simp add: file_Read_def brokenFile_def)
  show ?thesis
    by (simp add: uploadFile_batches_step [of 0 smallJob] getParts_def maxParts_def get urls
        del: uploadFile_urls.simps)
qed

lemma batchEnv_simps [simp]:
  "os_Open (batchEnv key sz) path = Inr (exampleFile (replicate (nat sz) CHR ''x''))"
  "GetToken (batchEnv key sz) w scope = Inr ''token''"
  "urlError (batchEnv key sz) url = None"
  "client_Do (batchEnv key sz) = partsServer"
  "decodeSignedUploadUrls (batchEnv key sz) = partsDecode key"
  by (simp_all add: batchEnv_def)

lemma batchJob_26:
  "batchJob 2621440005 =
     \<lparr>api = exampleApi, bucketKey = ''bucket'', objectKey = ''object'', fileToUpload = ''big.bin'',
      minutesExpiration = 60, uploadKey = [], fileSize = 2621440005, totalParts = 26,
      numberOfBatches = 2\<rparr>"
  by (simp add: batchJob_def newUploadJob_def batchEnv_def Let_def defaultSize_def megaByte_def
      maxParts_def minutesExpiration_const_def signed_divide_int_def)

lemma batchJob_25:
  "batchJob 2516582405 =
     \<lparr>api = exampleApi, bucketKey = ''bucket'', objectKey = ''object'', fileToUpload = ''big.bin'',
      minutesExpiration = 60, uploadKey = [], fileSize = 2516582405, totalParts = 25,
      numberOfBatches = 2\<rparr>"
  by (simp add: batchJob_def newUploadJob_def batchEnv_def Let_def defaultSize_def megaByte_def
      maxParts_def minutesExpiration_const_def signed_divide_int_def)

lemma batch_scenario:
  assumes run: "uploadFile (batchEnv key sz) (batchJob sz) [] = (ret, job', w')"
  shows "(0 < numberOfBatches (batchJob sz) \<longrightarrow> uploadKey job' = key)"
    and "(\<exists>req rep. HttpCall req rep \<in> set (newEvents [] w') \<and> Method req = ''POST'')"
    and "0 \<le> j \<Longrightarrow> j < numberOfBatches (batchJob sz) \<Longrightarrow>
         \<exists>req rep. HttpCall req rep \<in> set (newEvents [] w') \<and> Method req = ''GET'' \<and>
           map_of (Query req) ''firstPart'' = Some (Itoa (j * maxParts + 1)) \<and>
           map_of (Query req) ''parts'' = Some (Itoa (getParts (batchJob sz) (j * maxParts)))"
proof -
  let ?e = "batchEnv key sz" and ?job = "batchJob sz"
  let ?f = "exampleFile (replicate (nat sz) CHR ''x'')"
  have opened: "os_Open ?e (fileToUpload ?job) = Inr ?f" by simp
  have nofault: "readFault ?f = (\<lambda>p. None)" by (simp add: exampleFile_def)
  from healthy_batches [OF healthy_batchEnv nofault, of key sz 0 0 ?job "[]"]
  obtain job1 f1 w1 where loop: "uploadFile_batches ?e 0 0 ?job ?f [] = (None, job1, f1, w1)"
    by blast
  from run opened loop obtain rc where same: "job' = job1"
    and final: "retry_completeUpload ?e job' w1 = (rc, w')"
    by (cases rule: uploadFile_cases) simp_all
  have "\<exists>u w2. retry_getSignedUploadUrls ?e ?job 1 (getParts ?job 0) [] = (Inr u, w2) \<and> UploadKey u = key"
    by (simp add: retry_getSignedUploadUrls_def numeral_3_eq_3 getSignedUploadUrls_eq
        signedUrlsResult_def partsServer_def partsDecode_def)
  with first_batch_token [OF run opened]
  show "0 < numberOfBatches (batchJob sz) \<longrightarrow> uploadKey job' = key"
    by auto
  have sent: "\<exists>res tok body rep. retry_completeUpload ?e job' w1 =
      (Inr res, w1 @ [TokenCall ''data:write data:read'' (Inr tok),
                      HttpCall (completeRequest ?e job' tok body) rep])"
    by (auto simp: retry_completeUpload_def numeral_3_eq_3 completeUpload_eq completeResult_def
        partsServer_def batchEnv_def)
  have grows: "extendsBy (\<lambda>_ _. True) [] w1"
    using uploadFile_batches_no_post [OF loop] by (rule extendsBy_mono) simp
  have ext: "extendsBy (\<lambda>_ _. True) w1 w'"
    using retry_completeUpload_extends [where P = "\<lambda>_ _. True" and e = ?e and job = job' and w = w1]
      final by simp
  from sent final obtain tok body rep
    where "HttpCall (completeRequest ?e job' tok body) rep \<in> set (newEvents w1 w')"
    by (auto simp: newEvents_def)
  with newEvents_mono(2) [OF grows ext]
  have "HttpCall (completeRequest ?e job' tok body) rep \<in> set (newEvents [] w')"
    by blast
  then show "\<exists>req rep. HttpCall req rep \<in> set (newEvents [] w') \<and> Method req = ''POST''"
    by (intro exI [of _ "completeRequest ?e job' tok body"] exI [of _ rep]) simp
  show "\<exists>req rep. HttpCall req rep \<in> set (newEvents [] w') \<and> Method req = ''GET'' \<and>
           map_of (Query req) ''firstPart'' = Some (Itoa (j * maxParts + 1)) \<and>
           map_of (Query req) ''parts'' = Some (Itoa (getParts (batchJob sz) (j * maxParts)))"
    if "0 \<le> j" "j < numberOfBatches (batchJob sz)"
    using uploadFile_batches_all_requested [OF loop _ _ that] newEvents_mono(1) [OF grows ext]
    by auto
qed


subsection \<open>Partitioning\<close>

lemma sdiv_nonneg_eq_div:
  fixes a b :: int
  assumes "0 \<le> a" "0 < b"
  shows "a sdiv b = a div b"
proof (cases "a = 0")
  case True
  then show ?thesis by (simp add: signed_divide_int_def)
next
  case False
  with assms have "sgn a = 1" "sgn b = 1" by simp_all
  with assms show ?thesis by (simp add: signed_divide_int_def)
qed

text \<open>
  C2. When \<open>os.Stat\<close> gives a size \<open>sz \<ge> 0\<close>, \<open>newUploadJob\<close> returns no error and a job
  with \<open>totalParts = floor (sz / 100 MiB) + 1\<close>, which is at least 1, and
  \<open>numberOfBatches = floor (totalParts / 25) + 1\<close>; an empty file has one part and a file of
  250 MiB has three.
\<close>

theorem newUploadJob_partitioning:
  assumes "os_Stat e path = Inr sz" and "0 \<le> sz"
    and "newUploadJob e a bucket objectName path = (job, err)"
  shows "err = None \<and> fileSize job = sz \<and>
         totalParts job = sz div (100 * 2 ^ 20) + 1 \<and> 1 \<le> totalParts job \<and>
         numberOfBatches job = totalParts job div 25 + 1 \<and>
         (sz = 0 \<longrightarrow> totalParts job = 1) \<and>
         (sz = 250 * 2 ^ 20 \<longrightarrow> totalParts job = 3)"
proof -
  define q where "q = sz div (100 * 2 ^ 20)"
  have tp: "sz sdiv defaultSize = q"
    using assms(2) by (simp add: q_def sdiv_nonneg_eq_div defaultSize_def megaByte_def)
  have nonneg: "0 \<le> q"
    using assms(2) by (simp add: q_def pos_imp_zdiv_nonneg_iff)
  then have nb: "(q + 1) sdiv maxParts = (q + 1) div 25"
    by (simp add: sdiv_nonneg_eq_div maxParts_def)
  have job: "job = \<lparr>api = a, bucketKey = bucket, objectKey = objectName, fileToUpload = path,
                 minutesExpiration = minutesExpiration_const, uploadKey = [],
                 fileSize = sz, totalParts = q + 1,
                 numberOfBatches = (q + 1) div 25 + 1\<rparr>"
    and err: "err = None"
    using assms(1,3) tp nb by (simp_all add: newUploadJob_def Let_def)
  have "sz = 0 \<longrightarrow> q = 0" and "sz = 250 * 2 ^ 20 \<longrightarrow> q = 2"
    by (simp_all add: q_def)
  moreover have "q = sz div (100 * 2 ^ 20)"
    by (simp add: q_def)
  ultimately show ?thesis
    using nonneg by (simp add: job err)
qed

theorem newUploadJob_partitioning_witness:
  "os_Stat (exampleEnv (250 * 2 ^ 20) (exampleFile []) (constServer 200 []) (constDecode [] []))
      ''big.bin'' = Inr (250 * 2 ^ 20) \<and>
   (0::int) \<le> 250 * 2 ^ 20 \<and>
   snd (newUploadJob (exampleEnv (250 * 2 ^ 20) (exampleFile []) (constServer 200 []) (constDecode [] []))
      exampleApi ''bucket'' ''object'' ''big.bin'') = None \<and>
   totalParts (fst (newUploadJob
      (exampleEnv (250 * 2 ^ 20) (exampleFile []) (constServer 200 []) (constDecode [] []))
      exampleApi ''bucket'' ''object'' ''big.bin'')) = 3 \<and>
   numberOfBatches (fst (newUploadJob
      (exampleEnv (250 * 2 ^ 20) (exampleFile []) (constServer 200 []) (constDecode [] []))
      exampleApi ''bucket'' ''object'' ''big.bin'')) = 1"
proof -
  let ?e = "exampleEnv (250 * 2 ^ 20) (exampleFile []) (constServer 200 []) (constDecode [] [])"
  have stat: "os_Stat ?e ''big.bin'' = Inr (250 * 2 ^ 20)"
    by (simp add: exampleEnv_def)
  have size: "(0::int) \<le> 250 * 2 ^ 20"
    by simp
  obtain job err where run: "newUploadJob ?e exampleApi ''bucket'' ''object'' ''big.bin'' = (job, err)"
    by (cases "newUploadJob ?e exampleApi ''bucket'' ''object'' ''big.bin''")
  from newUploadJob_partitioning [OF stat size run]
  have "err = None" and "totalParts job = 3" and "numberOfBatches job = 1"
    by simp_all
  with stat run show ?thesis
    by simp
qed

subsection \<open>The retry wrapper\<close>



subsection \<open>The signed-URL download\<close>

text \<open>
  C8. When the download's request is answered with status 200 and the number of bytes
  received differs from the size the signed-download metadata declares,
  \<open>downloadObjectUsingSignedUrl\<close> returns an error beside the bytes it read, not success:
  the size-mismatch error when the body was read to its end, and the error of the read when
  reading the body failed.
\<close>

theorem download_mismatch_returns_error:
  assumes "NewRequest e ''GET'' (Url s) [] = Inr req"
    and "outcome (client_Do e w req) = Inr resp"
    and "StatusCode resp = 200"
    and "int (length (RespBody resp)) \<noteq> Size s"
  shows "fst (downloadObjectUsingSignedUrl e s w) =
           (RespBody resp,
            Some (case RespBodyErr resp of
                    None \<Rightarrow> SizeMismatchError (Size s) (int (length (RespBody resp)))
                  | Some readErr \<Rightarrow> readErr))"
  using assms by (simp add: downloadObjectUsingSignedUrl_def Do_def Let_def split: option.split)

theorem download_mismatch_returns_error_witness:
  "NewRequest shortEnv ''GET'' (Url exampleDownload) [] =
     Inr \<lparr>Method = ''GET'', URL = ''https://s3/object'', Query = [], Header = [], Body = [],
          ContentLength = 0\<rparr> \<and>
   outcome (client_Do shortEnv []
     \<lparr>Method = ''GET'', URL = ''https://s3/object'', Query = [], Header = [], Body = [],
      ContentLength = 0\<rparr>) = Inr \<lparr>StatusCode = 200, RespBody = ''abc'', RespBodyErr = None\<rparr> \<and>
   int (length ''abc'') \<noteq> Size exampleDownload \<and>
   fst (downloadObjectUsingSignedUrl shortEnv exampleDownload []) =
     (''abc'', Some (SizeMismatchError 5 3)) \<and>
   outcome (client_Do cutEnv []
     \<lparr>Method = ''GET'', URL = ''https://s3/object'', Query = [], Header = [], Body = [],
      ContentLength = 0\<rparr>) =
     Inr \<lparr>StatusCode = 200, RespBody = ''abc'', RespBodyErr = Some (LibError ''unexpected EOF'')\<rparr> \<and>
   fst (downloadObjectUsingSignedUrl cutEnv exampleDownload []) =
     (''abc'', Some (LibError ''unexpected EOF''))"
proof -
  let ?req = "\<lparr>Method = ''GET'', URL = ''https://s3/object'', Query = [], Header = [], Body = [],
               ContentLength = 0\<rparr>"
  let ?resp = "\<lparr>StatusCode = 200, RespBody = ''abc'', RespBodyErr = None\<rparr>"
  let ?cut = "\<lparr>StatusCode = 200, RespBody = ''abc'', RespBodyErr = Some (LibError ''unexpected EOF'')\<rparr>"
  have req: "NewRequest shortEnv ''GET'' (Url exampleDownload) [] = Inr ?req"
    by (simp add: NewRequest_def shortEnv_def exampleEnv_def exampleDownload_def)
  have resp: "outcome (client_Do shortEnv [] ?req) = Inr ?resp"
    by (simp add: shortEnv_def exampleEnv_def constServer_def)
  have req': "NewRequest cutEnv ''GET'' (Url exampleDownload) [] = Inr ?req"
    by (simp add: NewRequest_def cutEnv_def exampleEnv_def exampleDownload_def)
  have resp': "outcome (client_Do cutEnv [] ?req) = Inr ?cut"
    by (simp add: cutEnv_def exampleEnv_def cutServer_def)
  have status: "StatusCode ?resp = 200" and status': "StatusCode ?cut = 200"
    by simp_all
  have differs: "int (length (RespBody ?resp)) \<noteq> Size exampleDownload"
    and differs': "int (length (RespBody ?cut)) \<noteq> Size exampleDownload"
    by (simp_all add: exampleDownload_def)
  from download_mismatch_returns_error [OF req resp status differs]
    download_mismatch_returns_error [OF req' resp' status' differs'] req resp resp' differs
  show ?thesis
    by (simp add: exampleDownload_def)
qed

text \<open>
  C8 as stated does not hold for a body cut short. In the download scenario with a response
  of status 200 whose body breaks off after three of the five declared bytes, the function
  returns the error of the read, which is no size-mismatch error: it returns at the failed
  read, before it compares the sizes.
\<close>

theorem download_cut_short_counterexample:
  "outcome (client_Do cutEnv []
     \<lparr>Method = ''GET'', URL = Url exampleDownload, Query = [], Header = [], Body = [],
      ContentLength = 0\<rparr>) =
     Inr \<lparr>StatusCode = 200, RespBody = ''abc'', RespBodyErr = Some (LibError ''unexpected EOF'')\<rparr> \<and>
   int (length ''abc'') \<noteq> Size exampleDownload \<and>
   fst (downloadObjectUsingSignedUrl cutEnv exampleDownload []) =
     (''abc'', Some (LibError ''unexpected EOF'')) \<and>
   \<not> isSizeMismatch (LibError ''unexpected EOF'')"
  by (simp add: downloadObjectUsingSignedUrl_def NewRequest_def Do_def Let_def cutEnv_def
      exampleEnv_def cutServer_def exampleDownload_def)

subsection \<open>The request for signed URLs\<close>

text \<open>
  C7. Every request that \<open>getSignedUploadUrls\<close> sends is a \<open>GET\<close> of the signed-upload path
  whose query holds \<open>firstPart\<close>, \<open>parts\<close> and \<open>minutesExpiration\<close>, preceded by \<open>uploadKey\<close>
  exactly when the job's session token is not empty, and whose only header is
  \<open>Authorization: Bearer\<close> with the access token the authenticator returned. The job that
  \<open>newUploadJob\<close> makes has an empty token, so the first batch's request has no
  \<open>uploadKey\<close>.
\<close>

theorem getSignedUploadUrls_request:
  assumes "getSignedUploadUrls e job firstPart parts w = (r, w')"
    and "HttpCall req rep \<in> set (newEvents w w')"
  shows "Method req = ''GET'' \<and> URL req = getSignedS3UploadPath e job \<and>
         Query req =
           (if uploadKey job \<noteq> [] then [(''uploadKey'', uploadKey job)] else []) @
           [(''firstPart'', Itoa firstPart), (''parts'', Itoa parts),
            (''minutesExpiration'', Itoa (minutesExpiration job))] \<and>
         (\<exists>accessToken. GetToken e w ''data:write data:read'' = Inr accessToken \<and>
            Header req = [(''Authorization'', ''Bearer '' @ accessToken)]) \<and>
         (''uploadKey'' \<in> fst ` set (Query req) \<longleftrightarrow> uploadKey job \<noteq> [])"
proof (cases "GetToken e w ''data:write data:read''")
  case (Inl err)
  with assms show ?thesis
    by (auto simp: getSignedUploadUrls_eq newEvents_def)
next
  case tok: (Inr tok)
  show ?thesis
  proof (cases "urlError e (getSignedS3UploadPath e job)")
    case (Some err)
    with tok assms show ?thesis
      by (auto simp: getSignedUploadUrls_eq newEvents_def)
  next
    case None
    with tok assms have "req = signedUrlsRequest e job tok firstPart parts"
      by (auto simp: getSignedUploadUrls_eq newEvents_def)
    with tok show ?thesis
      by (cases "uploadKey job = []") (simp_all add: signedUrlsRequest_def)
  qed
qed

theorem getSignedUploadUrls_request_witness:
  "getSignedUploadUrls smallEnv smallJob 1 1 [] =
     (Inr \<lparr>UploadKey = ''K'', Urls = [''https://s3/part1'']\<rparr>,
      [TokenCall ''data:write data:read'' (Inr ''token''),
       HttpCall (signedUrlsRequest smallEnv smallJob ''token'' 1 1)
         (constServer 200 [] [] (signedUrlsRequest smallEnv smallJob ''token'' 1 1))]) \<and>
   Query (signedUrlsRequest smallEnv smallJob ''token'' 1 1) =
     [(''firstPart'', ''1''), (''parts'', ''1''), (''minutesExpiration'', ''60'')] \<and>
   Header (signedUrlsRequest smallEnv smallJob ''token'' 1 1) = [(''Authorization'', ''Bearer token'')] \<and>
   ''uploadKey'' \<notin> fst ` set (Query (signedUrlsRequest smallEnv smallJob ''token'' 1 1))"
proof -
  let ?req = "signedUrlsRequest smallEnv smallJob ''token'' 1 1"
  let ?w = "[TokenCall ''data:write data:read'' (Inr ''token''), HttpCall ?req (constServer 200 [] [] ?req)]"
  have run: "getSignedUploadUrls smallEnv smallJob 1 1 [] =
      (Inr \<lparr>UploadKey = ''K'', Urls = [''https://s3/part1'']\<rparr>, ?w)"
    by (simp add: getSignedUploadUrls_eq signedUrlsResult_def constServer_def constDecode_def)
  have sent: "HttpCall ?req (constServer 200 [] [] ?req) \<in> set (newEvents [] ?w)"
    by (simp add: newEvents_def)
  from getSignedUploadUrls_request [OF run sent]
  have "Query ?req = [(''firstPart'', ''1''), (''parts'', ''1''), (''minutesExpiration'', ''60'')]"
    and "Header ?req = [(''Authorization'', ''Bearer token'')]"
    and "''uploadKey'' \<notin> fst ` set (Query ?req)"
    by (simp_all add: smallJob_def)
  with run show ?thesis
    by simp
qed


subsection \<open>Retrying the upload of a chunk\<close>

text \<open>
  C10. When the first attempt to upload a non-empty chunk fails and has left the buffer
  empty, \<open>retry.Do\<close> runs its remaining attempts on that empty buffer: each of them sends
  a \<open>PUT\<close> to the same URL with an empty body, content length 0 and the header
  \<open>Content-Length: 0\<close>, and leaves the buffer empty.
\<close>

theorem retry_uploadChunk_resends_drained_buffer:
  assumes "buffer \<noteq> []"
    and "uploadChunk e url (buffer, w) = (Inl err, ([], wa))"
  shows "retry_uploadChunk e url (buffer, w) =
           retry_Do 2 (apsnd (time_Sleep (3 * Second))) (uploadChunk e url)
             ([], wa @ [Sleep (3 * Second)])
         \<and> (\<forall>w'. \<exists>r req rep. uploadChunk e url ([], w') = (r, ([], w' @ [HttpCall req rep])) \<and>
                Method req = ''PUT'' \<and> URL req = url \<and> Body req = [] \<and> ContentLength req = 0 \<and>
                Header_Get (Header req) ''Content-Length'' = ''0'')"
proof -
  have url: "urlError e url = None"
  proof (cases "urlError e url")
    case (Some uerr)
    with assms show ?thesis by (simp add: uploadChunk_eq)
  qed simp
  have "retry_uploadChunk e url (buffer, w) =
           retry_Do 2 (apsnd (time_Sleep (3 * Second))) (uploadChunk e url)
             ([], wa @ [Sleep (3 * Second)])"
    using assms(2) by (simp add: retry_uploadChunk_def numeral_3_eq_3 numeral_2_eq_2 time_Sleep_def)
  moreover have "\<exists>r req rep. uploadChunk e url ([], w') = (r, ([], w' @ [HttpCall req rep])) \<and>
                Method req = ''PUT'' \<and> URL req = url \<and> Body req = [] \<and> ContentLength req = 0 \<and>
                Header_Get (Header req) ''Content-Length'' = ''0''" for w'
    using url by (simp add: uploadChunk_eq chunkRequest_def Header_Get_def)
  ultimately show ?thesis by blast
qed

theorem retry_uploadChunk_resends_drained_buffer_witness:
  "uploadChunk busyEnv ''https://s3/part1'' (''abc'', []) =
     (Inl (StatusError 500 ''busy''),
      ([], [HttpCall (chunkRequest ''https://s3/part1'' ''abc'')
              (constServer 500 ''busy'' [] (chunkRequest ''https://s3/part1'' ''abc''))])) \<and>
   map Body (chunkUploads False (snd (snd (retry_uploadChunk busyEnv ''https://s3/part1'' (''abc'', []))))) = [''abc''] \<and>
   snd (snd (retry_uploadChunk busyEnv ''https://s3/part1'' (''abc'', []))) =
     [HttpCall (chunkRequest ''https://s3/part1'' ''abc'')
        (constServer 500 ''busy'' [] (chunkRequest ''https://s3/part1'' ''abc'')),
      Sleep (3 * Second),
      HttpCall (chunkRequest ''https://s3/part1'' [])
        \<lparr>outcome = Inr \<lparr>StatusCode = 500, RespBody = ''busy'', RespBodyErr = None\<rparr>, consumed = 0\<rparr>,
      Sleep (3 * Second),
      HttpCall (chunkRequest ''https://s3/part1'' [])
        \<lparr>outcome = Inr \<lparr>StatusCode = 500, RespBody = ''busy'', RespBodyErr = None\<rparr>, consumed = 0\<rparr>]"
proof -
  let ?url = "''https://s3/part1''"
  let ?first = "HttpCall (chunkRequest ?url ''abc'') (constServer 500 ''busy'' [] (chunkRequest ?url ''abc''))"
  have nonempty: "''abc'' \<noteq> []" by simp
  have first: "uploadChunk busyEnv ?url (''abc'', []) = (Inl (StatusError 500 ''busy''), ([], [?first]))"
    by (simp add: uploadChunk_eq chunkResult_def constServer_def chunkRequest_def)
  from retry_uploadChunk_resends_drained_buffer [OF nonempty first]
  have "retry_uploadChunk busyEnv ?url (''abc'', []) =
          retry_Do 2 (apsnd (time_Sleep (3 * Second))) (uploadChunk busyEnv ?url)
            ([], [?first] @ [Sleep (3 * Second)])"
    by blast
  then have "snd (snd (retry_uploadChunk busyEnv ?url (''abc'', []))) =
     [?first, Sleep (3 * Second),
      HttpCall (chunkRequest ?url [])
        \<lparr>outcome = Inr \<lparr>StatusCode = 500, RespBody = ''busy'', RespBodyErr = None\<rparr>, consumed = 0\<rparr>,
      Sleep (3 * Second),
      HttpCall (chunkRequest ?url [])
        \<lparr>outcome = Inr \<lparr>StatusCode = 500, RespBody = ''busy'', RespBodyErr = None\<rparr>, consumed = 0\<rparr>]"
    by (simp add: numeral_2_eq_2 uploadChunk_eq chunkResult_def constServer_def time_Sleep_def
        chunkRequest_def)
  with first show ?thesis
    by (simp add: chunkRequest_def)
qed

subsection \<open>The part plan of the batches\<close>

text \<open>
  C4. Every request for signed URLs that \<open>uploadFile\<close> sends belongs to a batch
  \<open>i\<close> in \<open>0 .. numberOfBatches - 1\<close> and asks for \<open>firstPart = i * 25 + 1\<close> and
  \<open>parts = min 25 (totalParts - 25 * i)\<close>; whenever the run gets as far as sending the
  finalize request, every batch has had its request; and this part count is what
  \<open>getParts\<close> computes for the counter \<open>i * maxParts\<close> of batch \<open>i\<close> (for 30 parts:
  25 parts from part 1, then 5 parts from part 26).
\<close>

theorem signed_url_requests_follow_part_plan:
  assumes "uploadFile e job w = (ret, job', w')"
  shows "(\<forall>req rep. HttpCall req rep \<in> set (newEvents w w') \<and> Method req = ''GET'' \<longrightarrow>
            (\<exists>i. 0 \<le> i \<and> i < numberOfBatches job \<and>
                 map_of (Query req) ''firstPart'' = Some (Itoa (i * 25 + 1)) \<and>
                 map_of (Query req) ''parts'' = Some (Itoa (min 25 (totalParts job - 25 * i)))))
       \<and> ((\<exists>req rep. HttpCall req rep \<in> set (newEvents w w') \<and> Method req = ''POST'') \<longrightarrow>
          (\<forall>i. 0 \<le> i \<and> i < numberOfBatches job \<longrightarrow>
            (\<exists>req rep. HttpCall req rep \<in> set (newEvents w w') \<and> Method req = ''GET'' \<and>
                 map_of (Query req) ''firstPart'' = Some (Itoa (i * 25 + 1)) \<and>
                 map_of (Query req) ''parts'' = Some (Itoa (min 25 (totalParts job - 25 * i))))))
       \<and> (\<forall>i. getParts job (i * maxParts) = min 25 (totalParts job - 25 * i))"
proof (intro conjI)
  let ?plan = "\<lambda>req (rep::reply). Method req = ''GET'' \<longrightarrow>
            (\<exists>i. 0 \<le> i \<and> i < numberOfBatches job \<and>
                 map_of (Query req) ''firstPart'' = Some (Itoa (i * 25 + 1)) \<and>
                 map_of (Query req) ''parts'' = Some (Itoa (min 25 (totalParts job - 25 * i))))"
  have "extendsBy ?plan w w' \<and> (\<exists>k. job' = job\<lparr>uploadKey := k\<rparr>)"
  proof (rule uploadFile_extends [OF assms])
    show "?plan (signedUrlsRequest e job tok 1 (getParts job 0)) rep"
      if "0 < numberOfBatches job" for tok rep
      using that by (auto simp: getParts_min maxParts_def intro!: exI [of _ 0])
    show "?plan (signedUrlsRequest e job' tok (j * maxParts + 1) (getParts job (j * maxParts))) rep"
      if "1 \<le> j" "j < numberOfBatches job" for j tok rep
      using that by (auto simp: getParts_min maxParts_def algebra_simps intro!: exI [of _ j])
    show "?plan (chunkRequest url b) rep" for url b rep
      by simp
    show "?plan (completeRequest e job' tok bodyJson) rep" for tok bodyJson rep
      by simp
  qed
  then show "\<forall>req rep. HttpCall req rep \<in> set (newEvents w w') \<and> Method req = ''GET'' \<longrightarrow>
            (\<exists>i. 0 \<le> i \<and> i < numberOfBatches job \<and>
                 map_of (Query req) ''firstPart'' = Some (Itoa (i * 25 + 1)) \<and>
                 map_of (Query req) ''parts'' = Some (Itoa (min 25 (totalParts job - 25 * i))))"
    by (blast dest: extendsBy_calls)
next
  show "(\<exists>req rep. HttpCall req rep \<in> set (newEvents w w') \<and> Method req = ''POST'') \<longrightarrow>
          (\<forall>i. 0 \<le> i \<and> i < numberOfBatches job \<longrightarrow>
            (\<exists>req rep. HttpCall req rep \<in> set (newEvents w w') \<and> Method req = ''GET'' \<and>
                 map_of (Query req) ''firstPart'' = Some (Itoa (i * 25 + 1)) \<and>
                 map_of (Query req) ''parts'' = Some (Itoa (min 25 (totalParts job - 25 * i)))))"
  proof (intro impI allI, elim exE conjE)
    fix preq prep i
    assume post: "HttpCall preq prep \<in> set (newEvents w w')" "Method preq = ''POST''"
      and i: "0 \<le> i" "i < numberOfBatches job"
    from assms show "\<exists>req rep. HttpCall req rep \<in> set (newEvents w w') \<and> Method req = ''GET'' \<and>
                 map_of (Query req) ''firstPart'' = Some (Itoa (i * 25 + 1)) \<and>
                 map_of (Query req) ''parts'' = Some (Itoa (min 25 (totalParts job - 25 * i)))"
    proof (cases rule: uploadFile_cases)
      case (noFile err)
      with post show ?thesis by (simp add: newEvents_def)
    next
      case (aborted f loopErr f1)
      from uploadFile_batches_no_post [OF aborted(2)] post show ?thesis
        by (auto dest: extendsBy_calls)
    next
      case (finalized f f1 w1 rc)
      have "extendsBy (\<lambda>_ _. True) w1 w'"
        using retry_completeUpload_extends [where P = "\<lambda>_ _. True" and e = e and job = job' and w = w1]
          finalized(3) by simp
      with uploadFile_batches_no_post [OF finalized(2)]
      have sub: "set (newEvents w w1) \<subseteq> set (newEvents w w')"
        by (rule newEvents_mono(1))
      from uploadFile_batches_all_requested [OF finalized(2) _ _ i(1) i(2)]
      obtain req rep where "HttpCall req rep \<in> set (newEvents w w1)" "Method req = ''GET''"
        "map_of (Query req) ''firstPart'' = Some (Itoa (i * maxParts + 1))"
        "map_of (Query req) ''parts'' = Some (Itoa (getParts job (i * maxParts)))"
        by auto
      with sub have "HttpCall req rep \<in> set (newEvents w w') \<and> Method req = ''GET'' \<and>
          map_of (Query req) ''firstPart'' = Some (Itoa (i * 25 + 1)) \<and>
          map_of (Query req) ''parts'' = Some (Itoa (min 25 (totalParts job - 25 * i)))"
        by (auto simp: getParts_min maxParts_def algebra_simps)
      then show ?thesis by blast
    qed
  qed
next
  show "\<forall>i. getParts job (i * maxParts) = min 25 (totalParts job - 25 * i)"
    by (simp add: getParts_min maxParts_def algebra_simps)
qed


theorem signed_url_requests_follow_part_plan_witness:
  "uploadFile smallEnv smallJob [] =
     ((\<lparr>ObjectId = [], ResultSize = 0, Location = []\<rparr>, None),
      smallJob\<lparr>uploadKey := ''K''\<rparr>, smallTrace) \<and>
   HttpCall (signedUrlsRequest smallEnv smallJob ''token'' 1 1) (okReply 0)
     \<in> set (newEvents [] smallTrace) \<and>
   (\<exists>i. 0 \<le> i \<and> i < numberOfBatches smallJob \<and>
      map_of (Query (signedUrlsRequest smallEnv smallJob ''token'' 1 1)) ''firstPart'' =
        Some (Itoa (i * 25 + 1)) \<and>
      map_of (Query (signedUrlsRequest smallEnv smallJob ''token'' 1 1)) ''parts'' =
        Some (Itoa (min 25 (totalParts smallJob - 25 * i)))) \<and>
   getParts (smallJob\<lparr>totalParts := 30, numberOfBatches := 2\<rparr>) (0 * maxParts) = 25 \<and>
   getParts (smallJob\<lparr>totalParts := 30, numberOfBatches := 2\<rparr>) (1 * maxParts) = 5"
proof -
  let ?req = "signedUrlsRequest smallEnv smallJob ''token'' 1 1"
  have sent: "HttpCall ?req (okReply 0) \<in> set (newEvents [] smallTrace)"
    by (simp add: newEvents_def smallTrace_def)
  have get: "Method ?req = ''GET''"
    by simp
  from signed_url_requests_follow_part_plan [OF smallRun] sent get
  have plan: "\<exists>i. 0 \<le> i \<and> i < numberOfBatches smallJob \<and>
      map_of (Query ?req) ''firstPart'' = Some (Itoa (i * 25 + 1)) \<and>
      map_of (Query ?req) ''parts'' = Some (Itoa (min 25 (totalParts smallJob - 25 * i)))"
    by blast
  let ?job = "smallJob\<lparr>totalParts := 30, numberOfBatches := 2\<rparr>"
  obtain ret job' w' where "uploadFile smallEnv ?job [] = (ret, job', w')"
    by (cases "uploadFile smallEnv ?job []")
  from signed_url_requests_follow_part_plan [OF this]
  have "\<forall>i. getParts ?job (i * maxParts) = min 25 (totalParts ?job - 25 * i)"
    by blast
  from this [rule_format, of 0] this [rule_format, of 1]
  have "getParts ?job (0 * maxParts) = 25" and "getParts ?job (1 * maxParts) = 5"
    by simp_all
  with smallRun sent plan show ?thesis
    by blast
qed

subsection \<open>Failures inside the batch loop\<close>

text \<open>
  C1. In each of three runs for the three-byte file the batch loop ends at a \<open>return\<close>
  with its own \<open>err\<close> holding the annotated error: the request for signed URLs has failed
  three times, the upload of the chunk has failed three times, the file cannot be read.
  In each of them \<open>uploadFile\<close> returns the zero \<open>UploadResult\<close> and no error: the
  annotated error stays in the variable of the loop body.
\<close>

theorem uploadFile_returns_nil_after_loop_failure:
  "uploadFile_batches busyEnv 0 0 smallJob (exampleFile ''abc'') [] =
     (Some (SignedUrlsError 1 1 (StatusError 500 ''busy'')), smallJob, exampleFile ''abc'', busyTrace) \<and>
   uploadFile busyEnv smallJob [] = ((zeroUploadResult, None), smallJob, busyTrace) \<and>
   uploadFile_batches putFailEnv 0 0 smallJob (exampleFile ''abc'') [] =
     (Some (ChunkUploadError ''https://s3/part1'' (StatusError 500 ''busy'')),
      smallJob\<lparr>uploadKey := ''K''\<rparr>, (exampleFile ''abc'')\<lparr>pos := 3\<rparr>, putFailTrace) \<and>
   uploadFile putFailEnv smallJob [] =
     ((zeroUploadResult, None), smallJob\<lparr>uploadKey := ''K''\<rparr>, putFailTrace) \<and>
   uploadFile_batches brokenEnv 0 0 smallJob brokenFile [] =
     (Some (ReadFileError (LibError ''input/output error'')),
      smallJob\<lparr>uploadKey := ''K''\<rparr>, brokenFile, brokenTrace) \<and>
   uploadFile brokenEnv smallJob [] =
     ((zeroUploadResult, None), smallJob\<lparr>uploadKey := ''K''\<rparr>, brokenTrace)"
  by (simp add: busyRun putFailRun brokenRun uploadFile_def Let_def busyEnv_def putFailEnv_def
      brokenEnv_def
      busyRun [unfolded busyEnv_def] putFailRun [unfolded putFailEnv_def]
      brokenRun [unfolded brokenEnv_def])

subsection \<open>The session token\<close>

text \<open>
  C3, as the code has it. The session token that \<open>uploadFile\<close> leaves in the job is the
  \<open>UploadKey\<close> of what the first batch's request for signed URLs returned. Every request
  for signed URLs of a later batch (one whose \<open>firstPart\<close> is not 1) carries that token as
  its \<open>uploadKey\<close> parameter when the token is not empty, and has no \<open>uploadKey\<close>
  parameter when it is empty. The body of every finalize request is the encoding of that
  token, empty or not, and the file size.
\<close>

theorem uploadKey_reused_unless_empty:
  assumes "uploadFile e job w = (ret, job', w')"
  shows "(\<forall>req rep. HttpCall req rep \<in> set (newEvents w w') \<and> Method req = ''GET'' \<and>
              map_of (Query req) ''firstPart'' \<noteq> Some ''1'' \<longrightarrow>
            map_of (Query req) ''uploadKey'' =
              (if uploadKey job' = [] then None else Some (uploadKey job')))
       \<and> (\<forall>req rep. HttpCall req rep \<in> set (newEvents w w') \<and> Method req = ''POST'' \<longrightarrow>
            json_Marshal e \<lparr>bodyUploadKey = uploadKey job', bodySize = fileSize job\<rparr> = Inr (Body req))
       \<and> (\<forall>f u w1. os_Open e (fileToUpload job) = Inr f \<and> 0 < numberOfBatches job \<and>
              retry_getSignedUploadUrls e job 1 (getParts job 0) w = (Inr u, w1) \<longrightarrow>
            uploadKey job' = UploadKey u)"
  using later_requests_carry_key [OF assms] finalize_carries_key [OF assms]
    first_batch_token [OF assms]
  by blast

theorem uploadKey_reused_unless_empty_witness:
  "uploadKey (fst (snd (uploadFile (batchEnv ''K'' 2621440005) (batchJob 2621440005) []))) = ''K'' \<and>
   (\<exists>req rep.
      HttpCall req rep \<in> set (newEvents []
        (snd (snd (uploadFile (batchEnv ''K'' 2621440005) (batchJob 2621440005) [])))) \<and>
      Method req = ''GET'' \<and> map_of (Query req) ''firstPart'' = Some (Itoa 26) \<and>
      map_of (Query req) ''uploadKey'' = Some ''K'') \<and>
   (\<exists>req rep.
      HttpCall req rep \<in> set (newEvents []
        (snd (snd (uploadFile (batchEnv ''K'' 2621440005) (batchJob 2621440005) [])))) \<and>
      Method req = ''POST'' \<and> Body req = ''K:'' @ Itoa 2621440005)"
proof -
  obtain ret job' w' where run:
    "uploadFile (batchEnv ''K'' 2621440005) (batchJob 2621440005) [] = (ret, job', w')"
    by (cases "uploadFile (batchEnv ''K'' 2621440005) (batchJob 2621440005) []")
  have two: "numberOfBatches (batchJob 2621440005) = 2"
    and size: "fileSize (batchJob 2621440005) = 2621440005"
    by (simp_all add: batchJob_26)
  from batch_scenario(1) [OF run] two have key: "uploadKey job' = ''K''"
    by simp
  from batch_scenario(3) [OF run, of 1] two
  obtain req rep where sent: "HttpCall req rep \<in> set (newEvents [] w')" "Method req = ''GET''"
    and part: "map_of (Query req) ''firstPart'' = Some (Itoa (1 * maxParts + 1))"
    by auto
  from Itoa_first_batch [of 1] part have later: "map_of (Query req) ''firstPart'' \<noteq> Some ''1''"
    by simp
  from uploadKey_reused_unless_empty [OF run] sent later key
  have "map_of (Query req) ''uploadKey'' = Some ''K''"
    by auto
  with sent part
  have a: "\<exists>req rep. HttpCall req rep \<in> set (newEvents [] w') \<and>
      Method req = ''GET'' \<and> map_of (Query req) ''firstPart'' = Some (Itoa 26) \<and>
      map_of (Query req) ''uploadKey'' = Some ''K''"
    by (auto simp: maxParts_def)
  from batch_scenario(2) [OF run]
  obtain preq prep where post: "HttpCall preq prep \<in> set (newEvents [] w')" "Method preq = ''POST''"
    by blast
  with uploadKey_reused_unless_empty [OF run] key size
  have "Body preq = ''K:'' @ Itoa 2621440005"
    by (auto simp: batchEnv_def)
  with post
  have b: "\<exists>req rep. HttpCall req rep \<in> set (newEvents [] w') \<and>
      Method req = ''POST'' \<and> Body req = ''K:'' @ Itoa 2621440005"
    by blast
  from key a b run show ?thesis
    by simp
qed

text \<open>
  C3 as stated does not hold for an empty token. In the scenario with 26 parts and a server
  whose responses carry an empty session token, the second batch's request is sent, and
  its query has no \<open>uploadKey\<close> parameter: \<open>getSignedUploadUrls\<close> adds the parameter
  only for a token that is not empty.
\<close>

theorem uploadKey_query_counterexample:
  "uploadKey (fst (snd (uploadFile (batchEnv [] 2621440005) (batchJob 2621440005) []))) = [] \<and>
   \<not> (\<forall>req rep.
        HttpCall req rep \<in> set (newEvents []
          (snd (snd (uploadFile (batchEnv [] 2621440005) (batchJob 2621440005) [])))) \<and>
        Method req = ''GET'' \<and> map_of (Query req) ''firstPart'' \<noteq> Some ''1'' \<longrightarrow>
        map_of (Query req) ''uploadKey'' =
          Some (uploadKey (fst (snd (uploadFile (batchEnv [] 2621440005) (batchJob 2621440005) [])))))"
proof -
  obtain ret job' w' where run:
    "uploadFile (batchEnv [] 2621440005) (batchJob 2621440005) [] = (ret, job', w')"
    by (cases "uploadFile (batchEnv [] 2621440005) (batchJob 2621440005) []")
  have two: "numberOfBatches (batchJob 2621440005) = 2"
    by (simp add: batchJob_26)
  from batch_scenario(1) [OF run] two have key: "uploadKey job' = []"
    by simp
  from batch_scenario(3) [OF run, of 1] two
  obtain req rep where sent: "HttpCall req rep \<in> set (newEvents [] w')" "Method req = ''GET''"
    and part: "map_of (Query req) ''firstPart'' = Some (Itoa (1 * maxParts + 1))"
    by auto
  from Itoa_first_batch [of 1] part have later: "map_of (Query req) ''firstPart'' \<noteq> Some ''1''"
    by simp
  from later_requests_carry_key [OF run sent later] key
  have "map_of (Query req) ''uploadKey'' = None"
    by simp
  with sent later key
  have "\<not> (\<forall>req rep. HttpCall req rep \<in> set (newEvents [] w') \<and>
        Method req = ''GET'' \<and> map_of (Query req) ''firstPart'' \<noteq> Some ''1'' \<longrightarrow>
        map_of (Query req) ''uploadKey'' = Some (uploadKey job'))"
    by auto
  with key run show ?thesis
    by simp
qed


subsection \<open>A part count that is a multiple of 25\<close>

text \<open>
  C9. For a job with \<open>totalParts = 25 * m\<close>, \<open>m > 0\<close>, and the batch count that
  \<open>newUploadJob\<close> computes, there are \<open>m + 1\<close> batches and \<open>getParts\<close> gives 0 for the
  last one. Whenever \<open>uploadFile\<close> sends the finalize request, the history holds, before
  any finalize request, a request for signed URLs with \<open>firstPart = 25 * m + 1\<close> and
  \<open>parts = 0\<close>. The last iteration of the loop sends that request and, when the response
  lists no URL, ends the loop with the history as that request left it: no chunk is
  uploaded.
\<close>

theorem extra_request_for_multiple_of_25:
  assumes "0 < m" and "totalParts job = 25 * m"
    and "numberOfBatches job = totalParts job sdiv maxParts + 1"
    and "uploadFile e job w = (ret, job', w')"
  shows "numberOfBatches job = m + 1 \<and> getParts job (m * maxParts) = 0 \<and>
     ((\<exists>req rep. HttpCall req rep \<in> set (newEvents w w') \<and> Method req = ''POST'') \<longrightarrow>
        (\<exists>evs1 evs2 req rep. newEvents w w' = evs1 @ evs2 \<and>
           HttpCall req rep \<in> set evs1 \<and> Method req = ''GET'' \<and>
           map_of (Query req) ''firstPart'' = Some (Itoa (25 * m + 1)) \<and>
           map_of (Query req) ''parts'' = Some ''0'' \<and>
           (\<forall>preq prep. HttpCall preq prep \<in> set evs1 \<longrightarrow> Method preq \<noteq> ''POST'')))
     \<and> (\<forall>f wa u wb. retry_getSignedUploadUrls e job (m * maxParts + 1) 0 wa = (Inr u, wb) \<and> Urls u = [] \<longrightarrow>
          uploadFile_batches e m (m * maxParts) job f wa = (None, job, f, wb))"
proof (intro conjI)
  have "0 \<le> 25 * m" using assms(1) by simp
  then have "(25 * m) sdiv maxParts = (25 * m) div 25"
    unfolding maxParts_def by (rule sdiv_nonneg_eq_div) simp
  with assms(2,3) show nb: "numberOfBatches job = m + 1"
    by simp
  show gp: "getParts job (m * maxParts) = 0"
    using assms(2) by (simp add: getParts_min maxParts_def)
  show "(\<exists>req rep. HttpCall req rep \<in> set (newEvents w w') \<and> Method req = ''POST'') \<longrightarrow>
        (\<exists>evs1 evs2 req rep. newEvents w w' = evs1 @ evs2 \<and>
           HttpCall req rep \<in> set evs1 \<and> Method req = ''GET'' \<and>
           map_of (Query req) ''firstPart'' = Some (Itoa (25 * m + 1)) \<and>
           map_of (Query req) ''parts'' = Some ''0'' \<and>
           (\<forall>preq prep. HttpCall preq prep \<in> set evs1 \<longrightarrow> Method preq \<noteq> ''POST''))"
  proof (intro impI, elim exE conjE)
    fix preq prep
    assume post: "HttpCall preq prep \<in> set (newEvents w w')" "Method preq = ''POST''"
    from assms(4) show "\<exists>evs1 evs2 req rep. newEvents w w' = evs1 @ evs2 \<and>
           HttpCall req rep \<in> set evs1 \<and> Method req = ''GET'' \<and>
           map_of (Query req) ''firstPart'' = Some (Itoa (25 * m + 1)) \<and>
           map_of (Query req) ''parts'' = Some ''0'' \<and>
           (\<forall>preq prep. HttpCall preq prep \<in> set evs1 \<longrightarrow> Method preq \<noteq> ''POST'')"
    proof (cases rule: uploadFile_cases)
      case (noFile err)
      with post show ?thesis by (simp add: newEvents_def)
    next
      case (aborted f loopErr f1)
      from uploadFile_batches_no_post [OF aborted(2)] post show ?thesis
        by (auto dest: extendsBy_calls)
    next
      case (finalized f f1 w1 rc)
      note noPost = uploadFile_batches_no_post [OF finalized(2)]
      have ext: "extendsBy (\<lambda>_ _. True) w1 w'"
        using retry_completeUpload_extends [where P = "\<lambda>_ _. True" and e = e and job = job' and w = w1]
          finalized(3) by simp
      have decomposed: "newEvents w w' = newEvents w w1 @ newEvents w1 w'"
        using noPost ext by (elim extendsByE) (simp add: newEvents_def)
      from uploadFile_batches_all_requested [OF finalized(2), of m] assms(1) nb gp
      obtain req rep where "HttpCall req rep \<in> set (newEvents w w1)" "Method req = ''GET''"
        "map_of (Query req) ''firstPart'' = Some (Itoa (25 * m + 1))"
        "map_of (Query req) ''parts'' = Some ''0''"
        by (auto simp: Itoa_0 maxParts_def algebra_simps)
      moreover have "\<forall>preq prep. HttpCall preq prep \<in> set (newEvents w w1) \<longrightarrow> Method preq \<noteq> ''POST''"
        using noPost by (blast dest: extendsBy_calls)
      ultimately show ?thesis
        using decomposed by blast
    qed
  qed
  show "\<forall>f wa u wb. retry_getSignedUploadUrls e job (m * maxParts + 1) 0 wa = (Inr u, wb) \<and> Urls u = [] \<longrightarrow>
          uploadFile_batches e m (m * maxParts) job f wa = (None, job, f, wb)"
    using assms(1) nb gp by (simp add: uploadFile_batches_step uploadFile_batches_done)
qed

theorem extra_request_for_multiple_of_25_witness:
  "(0::int) < 1 \<and> totalParts (batchJob 2516582405) = 25 * 1 \<and>
   numberOfBatches (batchJob 2516582405) = totalParts (batchJob 2516582405) sdiv maxParts + 1 \<and>
   numberOfBatches (batchJob 2516582405) = 1 + 1 \<and>
   getParts (batchJob 2516582405) (1 * maxParts) = 0 \<and>
   (\<exists>req rep. HttpCall req rep \<in> set (newEvents []
       (snd (snd (uploadFile (batchEnv ''K'' 2516582405) (batchJob 2516582405) [])))) \<and>
     Method req = ''POST'') \<and>
   (\<exists>req rep. HttpCall req rep \<in> set (newEvents []
       (snd (snd (uploadFile (batchEnv ''K'' 2516582405) (batchJob 2516582405) [])))) \<and>
     Method req = ''GET'' \<and> map_of (Query req) ''firstPart'' = Some (Itoa 26) \<and>
     map_of (Query req) ''parts'' = Some ''0'')"
proof -
  let ?job = "batchJob 2516582405"
  obtain ret job' w' where run: "uploadFile (batchEnv ''K'' 2516582405) ?job [] = (ret, job', w')"
    by (cases "uploadFile (batchEnv ''K'' 2516582405) ?job []")
  have m: "(0::int) < 1" by simp
  have parts: "totalParts ?job = 25 * 1"
    by (simp add: batchJob_25)
  have batches: "numberOfBatches ?job = totalParts ?job sdiv maxParts + 1"
    by (simp add: batchJob_25 maxParts_def signed_divide_int_def)
  note extra = extra_request_for_multiple_of_25 [OF m parts batches run]
  from batch_scenario(2) [OF run]
  have post: "\<exists>req rep. HttpCall req rep \<in> set (newEvents [] w') \<and> Method req = ''POST''" .
  with extra obtain evs1 evs2 req rep where "newEvents [] w' = evs1 @ evs2"
    "HttpCall req rep \<in> set evs1" "Method req = ''GET''"
    "map_of (Query req) ''firstPart'' = Some (Itoa (25 * 1 + 1))"
    "map_of (Query req) ''parts'' = Some ''0''"
    by blast
  then have get: "\<exists>req rep. HttpCall req rep \<in> set (newEvents [] w') \<and>
     Method req = ''GET'' \<and> map_of (Query req) ''firstPart'' = Some (Itoa 26) \<and>
     map_of (Query req) ''parts'' = Some ''0''"
    by auto
  from extra have "numberOfBatches ?job = 1 + 1" and "getParts ?job (1 * maxParts) = 0"
    by blast+
  with m parts batches post get run show ?thesis
    by simp
qed


subsection \<open>Chunk uploads in a history\<close>

lemma chunkUploads_append:
  "chunkUploads b (xs @ ys) = chunkUploads b xs @ chunkUploads (endsAsleep b xs) ys"
  by (induction b xs rule: chunkUploads.induct) simp_all

lemma endsAsleep_append: "endsAsleep b (xs @ ys) = endsAsleep (endsAsleep b xs) ys"
  by (induction b xs rule: endsAsleep.induct) simp_all

lemma grantedUrls_append: "grantedUrls e (xs @ ys) = grantedUrls e xs @ grantedUrls e ys"
  by (induction e xs rule: grantedUrls.induct) simp_all

lemma chunkUploads_no_put:
  "list_all (onCalls (\<lambda>req rep. Method req \<noteq> ''PUT'')) evs \<Longrightarrow> chunkUploads b evs = []"
  by (induction b evs rule: chunkUploads.induct) simp_all

lemma grantedUrls_no_get:
  "list_all (onCalls (\<lambda>req rep. Method req \<noteq> ''GET'')) evs \<Longrightarrow> grantedUrls e evs = []"
  by (induction e evs rule: grantedUrls.induct) simp_all

lemma inFileOrder_append:
  "inFileOrder bs n p (xs @ ys) \<longleftrightarrow> inFileOrder bs n p xs \<and> inFileOrder bs n (p + length xs * n) ys"
  by (induction xs arbitrary: p) (auto simp: algebra_simps)

lemma inFileOrder_nth:
  "inFileOrder bs n p rs \<Longrightarrow> k < length rs \<Longrightarrow>
   Body (rs ! k) = take n (drop (p + k * n) bs) \<and> Body (rs ! k) \<noteq> []"
proof (induction rs arbitrary: p k)
  case Nil
  then show ?case by simp
next
  case (Cons r rs)
  show ?case
  proof (cases k)
    case 0
    from Cons.prems(1) [unfolded inFileOrder.simps]
    have "Body r = take n (drop p bs)" and "Body r \<noteq> []"
      by blast+
    with 0 show ?thesis by simp
  next
    case (Suc j)
    from Cons.prems(1) [unfolded inFileOrder.simps] have rest: "inFileOrder bs n (p + n) rs"
      by blast
    from Cons.prems(2) Suc have j: "j < length rs"
      by simp
    have eq: "p + n + j * n = p + Suc j * n"
      by simp
    from Cons.IH [OF rest j] show ?thesis
      unfolding Suc nth_Cons_Suc eq .
  qed
qed

lemma retry_uploadChunk_chunks:
  assumes sl: "\<And>b w. sl (b, w) = (b, w @ [Sleep d])"
  shows "\<exists>evs. snd (snd (retry_Do n sl (uploadChunk e url) (b, w))) = w @ evs \<and>
      chunkUploads fl evs =
        (if \<not> fl \<and> urlError e url = None \<and> 0 < n then [chunkRequest url b] else []) \<and>
      grantedUrls e evs = [] \<and>
      ((\<exists>v. fst (retry_Do n sl (uploadChunk e url) (b, w)) = Inr v)
         \<longrightarrow> (\<forall>x. \<not> endsAsleep x evs) \<and> urlError e url = None)"
proof (induction n arbitrary: fl b w)
  case 0
  show ?case by simp
next
  case (Suc n)
  show ?case
  proof (cases "urlError e url")
    case (Some err)
    show ?thesis
    proof (cases "n = 0")
      case True
      with Some show ?thesis by (simp add: uploadChunk_eq)
    next
      case False
      from Suc.IH [where fl = True and b = b and w = "w @ [Sleep d]"] obtain evs
        where "snd (snd (retry_Do n sl (uploadChunk e url) (b, w @ [Sleep d]))) =
                 (w @ [Sleep d]) @ evs"
          and "chunkUploads True evs = []" and "grantedUrls e evs = []"
          and "(\<exists>v. fst (retry_Do n sl (uploadChunk e url) (b, w @ [Sleep d])) = Inr v)
                 \<longrightarrow> (\<forall>x. \<not> endsAsleep x evs) \<and> urlError e url = None"
        by auto
      with Some False show ?thesis
        by (intro exI [of _ "Sleep d # evs"]) (simp add: uploadChunk_eq sl)
    qed
  next
    case None
    let ?rep = "client_Do e w (chunkRequest url b)"
    let ?call = "HttpCall (chunkRequest url b) ?rep"
    show ?thesis
    proof (cases "chunkResult ?rep")
      case (Inr v)
      with None show ?thesis
        by (intro exI [of _ "[?call]"]) (simp add: uploadChunk_eq)
    next
      case (Inl err)
      show ?thesis
      proof (cases "n = 0")
        case True
        with None Inl show ?thesis
          by (intro exI [of _ "[?call]"]) (simp add: uploadChunk_eq)
      next
        case False
        from Suc.IH [where fl = True and b = "drop (consumed ?rep) b" and w = "w @ [?call, Sleep d]"]
        obtain evs
          where "snd (snd (retry_Do n sl (uploadChunk e url)
                    (drop (consumed ?rep) b, w @ [?call, Sleep d]))) = (w @ [?call, Sleep d]) @ evs"
            and "chunkUploads True evs = []" and "grantedUrls e evs = []"
            and "(\<exists>v. fst (retry_Do n sl (uploadChunk e url)
                    (drop (consumed ?rep) b, w @ [?call, Sleep d])) = Inr v)
                   \<longrightarrow> (\<forall>x. \<not> endsAsleep x evs) \<and> urlError e url = None"
          by auto
        with None Inl False show ?thesis
          by (intro exI [of _ "?call # Sleep d # evs"]) (simp add: uploadChunk_eq sl)
      qed
    qed
  qed
qed


lemma retry_uploadChunk_events:
  assumes run: "retry_uploadChunk e url (b, w) = (ru, (b', w'))"
  obtains evs where "w' = w @ evs" and "grantedUrls e evs = []"
    and "chunkUploads False evs = (if urlError e url = None then [chunkRequest url b] else [])"
    and "\<And>v. ru = Inr v \<Longrightarrow> \<not> endsAsleep False evs \<and> urlError e url = None"
proof -
  have sl: "\<And>b w. apsnd (time_Sleep (3 * Second)) (b, w) = (b, w @ [Sleep (3 * Second)])"
    by (simp add: time_Sleep_def)
  from retry_uploadChunk_chunks [where sl = "apsnd (time_Sleep (3 * Second))" and d = "3 * Second"
      and n = 3 and fl = False and e = e and url = url and b = b and w = w, OF sl]
    run [unfolded retry_uploadChunk_def]
  obtain evs where "w' = w @ evs" and "grantedUrls e evs = []"
    and "chunkUploads False evs = (if urlError e url = None then [chunkRequest url b] else [])"
    and "(\<exists>v. ru = Inr v) \<longrightarrow> (\<forall>x. \<not> endsAsleep x evs) \<and> urlError e url = None"
    by auto
  then show ?thesis
    by (intro that [of evs]) auto
qed

lemma getSignedUploadUrls_events:
  "\<exists>evs. snd (getSignedUploadUrls e job firstPart parts w) = w @ evs \<and>
     (\<forall>fl. chunkUploads fl evs = []) \<and> (\<forall>x. \<not> endsAsleep x evs) \<and>
     grantedUrls e evs =
       (case fst (getSignedUploadUrls e job firstPart parts w) of Inr u \<Rightarrow> Urls u | Inl err \<Rightarrow> [])"
proof (cases "GetToken e w ''data:write data:read''")
  case (Inl err)
  then show ?thesis
    by (simp add: getSignedUploadUrls_eq)
next
  case tok: (Inr tok)
  show ?thesis
  proof (cases "urlError e (getSignedS3UploadPath e job)")
    case (Some err)
    with tok show ?thesis
      by (simp add: getSignedUploadUrls_eq)
  next
    case None
    with tok show ?thesis
      by (simp add: getSignedUploadUrls_eq)
  qed
qed

lemma retry_getSignedUploadUrls_chunks:
  assumes sl: "\<And>w. sl w = w @ [Sleep d]"
  shows "\<exists>evs. snd (retry_Do n sl (getSignedUploadUrls e job firstPart parts) w) = w @ evs \<and>
     (\<forall>fl. chunkUploads fl evs = []) \<and>
     (\<forall>u. fst (retry_Do n sl (getSignedUploadUrls e job firstPart parts) w) = Inr u
        \<longrightarrow> grantedUrls e evs = Urls u \<and> (\<forall>x. \<not> endsAsleep x evs))"
proof (induction n arbitrary: w)
  case 0
  show ?case by simp
next
  case (Suc n)
  obtain rg w1 where g: "getSignedUploadUrls e job firstPart parts w = (rg, w1)"
    by (cases "getSignedUploadUrls e job firstPart parts w")
  with getSignedUploadUrls_events [of e job firstPart parts w] obtain evs
    where w1: "w1 = w @ evs" and noPut: "\<And>fl. chunkUploads fl evs = []"
      and awake: "\<And>x. \<not> endsAsleep x evs"
      and granted: "grantedUrls e evs = (case rg of Inr u \<Rightarrow> Urls u | Inl err \<Rightarrow> [])"
    by auto
  show ?case
  proof (cases rg)
    case (Inr u)
    with g w1 noPut awake granted show ?thesis
      by (intro exI [of _ evs]) simp
  next
    case (Inl err)
    show ?thesis
    proof (cases "n = 0")
      case True
      with Inl g w1 noPut show ?thesis
        by (intro exI [of _ evs]) simp
    next
      case False
      from Suc.IH [of "w1 @ [Sleep d]"] obtain evs'
        where rest: "snd (retry_Do n sl (getSignedUploadUrls e job firstPart parts) (w1 @ [Sleep d])) =
                 (w1 @ [Sleep d]) @ evs'"
          and noPut': "\<And>fl. chunkUploads fl evs' = []"
          and ok: "\<And>u. fst (retry_Do n sl (getSignedUploadUrls e job firstPart parts) (w1 @ [Sleep d])) = Inr u
                 \<Longrightarrow> grantedUrls e evs' = Urls u \<and> (\<forall>x. \<not> endsAsleep x evs')"
        by auto
      have step: "retry_Do (Suc n) sl (getSignedUploadUrls e job firstPart parts) w =
          retry_Do n sl (getSignedUploadUrls e job firstPart parts) (w1 @ [Sleep d])"
        using g Inl False sl [of w1] by simp
      from Inl granted have none: "grantedUrls e evs = []"
        by simp
      show ?thesis
        unfolding step
        using rest noPut noPut' ok none w1
        by (intro exI [of _ "evs @ Sleep d # evs'"])
           (simp add: chunkUploads_append grantedUrls_append endsAsleep_append)
    qed
  qed
qed

lemma retry_getSignedUploadUrls_events:
  assumes run: "retry_getSignedUploadUrls e job firstPart parts w = (rg, w')"
  obtains evs where "w' = w @ evs" and "\<And>fl. chunkUploads fl evs = []"
    and "\<And>u. rg = Inr u \<Longrightarrow> grantedUrls e evs = Urls u \<and> \<not> endsAsleep False evs"
proof -
  have sl: "\<And>w. time_Sleep (3 * Second) w = w @ [Sleep (3 * Second)]"
    by (simp add: time_Sleep_def)
  from retry_getSignedUploadUrls_chunks [where sl = "time_Sleep (3 * Second)" and d = "3 * Second"
      and n = 3 and e = e and job = job and firstPart = firstPart and parts = parts and w = w, OF sl]
    run [unfolded retry_getSignedUploadUrls_def]
  obtain evs where "w' = w @ evs" and "\<forall>fl. chunkUploads fl evs = []"
    and "\<forall>u. rg = Inr u \<longrightarrow> grantedUrls e evs = Urls u \<and> (\<forall>x. \<not> endsAsleep x evs)"
    by auto
  then show ?thesis
    by (intro that [of evs]) auto
qed


subsection \<open>Reading the file chunk by chunk\<close>

lemma file_Read_noMoreBytes:
  assumes "noMoreBytes f"
  shows "\<exists>err. file_Read f n = ([], err, f) \<and> err \<noteq> None"
  using assms by (auto simp: noMoreBytes_def file_Read_def split: option.split)

lemma file_Read_bytes:
  assumes "\<not> noMoreBytes f" and "0 < n"
  shows "\<exists>f1. file_Read f n = (take n (drop (pos f) (content f)), None, f1) \<and>
           take n (drop (pos f) (content f)) \<noteq> [] \<and>
           content f1 = content f \<and> readFault f1 = readFault f \<and>
           (pos f1 = pos f + n \<or> noMoreBytes f1)"
  using assms by (auto simp: noMoreBytes_def file_Read_def Let_def min_def)

lemma uploadFile_urls_chunks:
  assumes "uploadFile_urls e urls f w = (r, f', w')"
  shows "\<exists>evs. w' = w @ evs \<and> grantedUrls e evs = [] \<and>
     content f' = content f \<and> readFault f' = readFault f \<and>
     inFileOrder (content f) (nat defaultSize) (pos f) (chunkUploads False evs) \<and>
     prefix (map URL (chunkUploads False evs)) urls \<and>
     (r = None \<longrightarrow> \<not> endsAsleep False evs \<and>
        (pos f' = pos f + length (chunkUploads False evs) * nat defaultSize \<and>
         map URL (chunkUploads False evs) = urls \<or> noMoreBytes f')) \<and>
     (noMoreBytes f \<longrightarrow> chunkUploads False evs = [] \<and> f' = f)"
  using assms
proof (induction urls arbitrary: f w r f' w')
  case Nil
  then show ?case by simp
next
  case (Cons url urls)
  let ?n = "nat defaultSize"
  have n: "0 < ?n"
    by (simp add: defaultSize_def megaByte_def)
  show ?case
  proof (cases "noMoreBytes f")
    case True
    from file_Read_noMoreBytes [OF True, of ?n] obtain err
      where rd: "file_Read f ?n = ([], err, f)" and err: "err \<noteq> None"
      by blast
    show ?thesis
    proof (cases "err = Some io_EOF")
      case False
      with rd err Cons.prems have "r = map_option ReadFileError err" "f' = f" "w' = w"
        by simp_all
      with err show ?thesis
        by (intro exI [of _ "[]"]) auto
    next
      case eof: True
      with rd Cons.prems have rec: "uploadFile_urls e urls f w = (r, f', w')"
        by simp
      from Cons.IH [OF rec] True obtain evs
        where "w' = w @ evs" "grantedUrls e evs = []" "chunkUploads False evs = []" "f' = f"
          "r = None \<longrightarrow> \<not> endsAsleep False evs"
        by blast
      with True show ?thesis
        by (intro exI [of _ evs]) simp
    qed
  next
    case False
    define bs where "bs = take ?n (drop (pos f) (content f))"
    from file_Read_bytes [OF False n] obtain f1
      where rd: "file_Read f ?n = (bs, None, f1)" and bs: "bs \<noteq> []"
        and same: "content f1 = content f" "readFault f1 = readFault f"
        and adv: "pos f1 = pos f + ?n \<or> noMoreBytes f1"
      unfolding bs_def by blast
    obtain ru b1 w1 where put: "retry_uploadChunk e url (bs, w) = (ru, (b1, w1))"
      by (cases "retry_uploadChunk e url (bs, w)") auto
    from retry_uploadChunk_events [OF put] obtain evs1
      where w1: "w1 = w @ evs1" and g1: "grantedUrls e evs1 = []"
        and u1: "chunkUploads False evs1 = (if urlError e url = None then [chunkRequest url bs] else [])"
        and ok1: "\<And>v. ru = Inr v \<Longrightarrow> \<not> endsAsleep False evs1 \<and> urlError e url = None"
      by blast
    show ?thesis
    proof (cases ru)
      case (Inl uerr)
      with rd bs put Cons.prems
      have res: "r = Some (ChunkUploadError url uerr)" "f' = f1" "w' = w1"
        by simp_all
      from res w1 g1 u1 same bs False show ?thesis
        by (intro exI [of _ evs1]) (simp add: bs_def)
    next
      case (Inr v)
      with rd bs put Cons.prems have rec: "uploadFile_urls e urls f1 w1 = (r, f', w')"
        by simp
      from ok1 [OF Inr] u1 have awake: "\<not> endsAsleep False evs1"
        and first: "chunkUploads False evs1 = [chunkRequest url bs]"
        by simp_all
      from Cons.IH [OF rec] obtain evs2
        where w': "w' = w1 @ evs2" and g2: "grantedUrls e evs2 = []"
          and same': "content f' = content f1" "readFault f' = readFault f1"
          and ord: "inFileOrder (content f1) ?n (pos f1) (chunkUploads False evs2)"
          and pre: "prefix (map URL (chunkUploads False evs2)) urls"
          and fin: "r = None \<longrightarrow> \<not> endsAsleep False evs2 \<and>
             (pos f' = pos f1 + length (chunkUploads False evs2) * ?n \<and>
              map URL (chunkUploads False evs2) = urls \<or> noMoreBytes f')"
          and stop: "noMoreBytes f1 \<longrightarrow> chunkUploads False evs2 = [] \<and> f' = f1"
        by blast
      have all: "chunkUploads False (evs1 @ evs2) = chunkRequest url bs # chunkUploads False evs2"
        using awake first by (simp add: chunkUploads_append)
      have ord': "inFileOrder (content f) ?n (pos f + ?n) (chunkUploads False evs2)"
        using adv ord stop same by auto
      have fin': "r = None \<longrightarrow> \<not> endsAsleep False (evs1 @ evs2) \<and>
             (pos f' = pos f + length (chunkUploads False (evs1 @ evs2)) * ?n \<and>
              map URL (chunkUploads False (evs1 @ evs2)) = url # urls \<or> noMoreBytes f')"
        using adv fin stop awake unfolding all by (auto simp: endsAsleep_append)
      from w1 w' g1 g2 same same' ord' pre fin' False bs show ?thesis
        unfolding all
        by (intro exI [of _ "evs1 @ evs2"]) (simp add: all grantedUrls_append bs_def)
    qed
  qed
qed


lemma uploadFile_batches_chunks:
  assumes "uploadFile_batches e i pc job f w = (r, job', f', w')"
  shows "\<exists>evs. w' = w @ evs \<and>
     inFileOrder (content f) (nat defaultSize) (pos f) (chunkUploads False evs) \<and>
     prefix (map URL (chunkUploads False evs)) (grantedUrls e evs) \<and>
     (noMoreBytes f \<longrightarrow> chunkUploads False evs = [])"
  using assms
proof (induction "nat (numberOfBatches job - i)" arbitrary: i pc job f w rule: less_induct)
  case less
  let ?n = "nat defaultSize"
  show ?case
  proof (cases "i < numberOfBatches job")
    case False
    with less.prems show ?thesis
      by (intro exI [of _ "[]"]) (simp add: uploadFile_batches_done)
  next
    case True
    obtain rg w1 where g:
      "retry_getSignedUploadUrls e job (i * maxParts + 1) (getParts job pc) w = (rg, w1)"
      by (cases "retry_getSignedUploadUrls e job (i * maxParts + 1) (getParts job pc) w")
    from retry_getSignedUploadUrls_events [OF g] obtain evs1
      where w1: "w1 = w @ evs1" and noPut: "\<And>fl. chunkUploads fl evs1 = []"
        and ok1: "\<And>u. rg = Inr u \<Longrightarrow> grantedUrls e evs1 = Urls u \<and> \<not> endsAsleep False evs1"
      by blast
    show ?thesis
    proof (cases rg)
      case (Inl err)
      with True g less.prems have "w' = w1"
        by (simp add: uploadFile_batches_step)
      with w1 noPut show ?thesis
        by (intro exI [of _ evs1]) simp
    next
      case (Inr u)
      from ok1 [OF Inr] have g1: "grantedUrls e evs1 = Urls u" and awake1: "\<not> endsAsleep False evs1"
        by simp_all
      obtain ru f1 w2 where us: "uploadFile_urls e (Urls u) f w1 = (ru, f1, w2)"
        by (cases "uploadFile_urls e (Urls u) f w1")
      from uploadFile_urls_chunks [OF us] obtain evs2
        where w2: "w2 = w1 @ evs2" and g2: "grantedUrls e evs2 = []"
          and same: "content f1 = content f"
          and ord2: "inFileOrder (content f) ?n (pos f) (chunkUploads False evs2)"
          and pre2: "prefix (map URL (chunkUploads False evs2)) (Urls u)"
          and fin2: "ru = None \<longrightarrow> \<not> endsAsleep False evs2 \<and>
             (pos f1 = pos f + length (chunkUploads False evs2) * ?n \<and>
              map URL (chunkUploads False evs2) = Urls u \<or> noMoreBytes f1)"
          and stop2: "noMoreBytes f \<longrightarrow> chunkUploads False evs2 = [] \<and> f1 = f"
        by blast
      have u12: "chunkUploads False (evs1 @ evs2) = chunkUploads False evs2"
        using noPut awake1 by (simp add: chunkUploads_append)
      show ?thesis
      proof (cases ru)
        case (Some err)
        with True g Inr us less.prems have "w' = w2"
          by (simp add: uploadFile_batches_step)
        with w1 w2 g1 g2 ord2 pre2 stop2 show ?thesis
          by (intro exI [of _ "evs1 @ evs2"]) (simp add: u12 grantedUrls_append)
      next
        case None
        let ?job1 = "if i = 0 then job\<lparr>uploadKey := UploadKey u\<rparr> else job"
        from None True g Inr us less.prems
        have rec: "uploadFile_batches e (i + 1) (pc + maxParts) ?job1 f1 w2 = (r, job', f', w')"
          by (simp add: uploadFile_batches_step)
        have "nat (numberOfBatches ?job1 - (i + 1)) < nat (numberOfBatches job - i)"
          using True by simp
        from less.hyps [OF this rec] obtain evs3
          where w': "w' = w2 @ evs3"
            and ord3: "inFileOrder (content f1) ?n (pos f1) (chunkUploads False evs3)"
            and pre3: "prefix (map URL (chunkUploads False evs3)) (grantedUrls e evs3)"
            and stop3: "noMoreBytes f1 \<longrightarrow> chunkUploads False evs3 = []"
          by blast
        from None fin2 have awake2: "\<not> endsAsleep False evs2"
          and adv: "pos f1 = pos f + length (chunkUploads False evs2) * ?n \<and>
              map URL (chunkUploads False evs2) = Urls u \<or> noMoreBytes f1"
          by simp_all
        have all: "chunkUploads False (evs1 @ evs2 @ evs3) =
            chunkUploads False evs2 @ chunkUploads False evs3"
          using noPut awake1 awake2 by (simp add: chunkUploads_append endsAsleep_append)
        have granted: "grantedUrls e (evs1 @ evs2 @ evs3) = Urls u @ grantedUrls e evs3"
          using g1 g2 by (simp add: grantedUrls_append)
        have ord: "inFileOrder (content f) ?n (pos f) (chunkUploads False evs2 @ chunkUploads False evs3)"
          using ord2 ord3 adv stop3 same by (auto simp: inFileOrder_append)
        have pre: "prefix (map URL (chunkUploads False evs2 @ chunkUploads False evs3))
            (Urls u @ grantedUrls e evs3)"
          using pre2 pre3 adv stop3 by (auto simp: prefix_def)
        have stop: "noMoreBytes f \<longrightarrow> chunkUploads False evs2 @ chunkUploads False evs3 = []"
          using stop2 stop3 by auto
        from w1 w2 w' ord pre stop show ?thesis
          unfolding all [symmetric] granted [symmetric]
          by (intro exI [of _ "evs1 @ evs2 @ evs3"]) simp
      qed
    qed
  qed
qed

lemma retry_completeUpload_events:
  assumes "retry_completeUpload e job w = (rc, w')"
  obtains evs where "w' = w @ evs" and "\<And>fl. chunkUploads fl evs = []" and "grantedUrls e evs = []"
proof -
  from retry_completeUpload_extends [where P = "\<lambda>req rep. Method req = ''POST''" and e = e
      and job = job and w = w] assms
  have "extendsBy (\<lambda>req rep. Method req = ''POST'') w w'"
    by simp
  then obtain evs where w': "w' = w @ evs"
    and post: "list_all (onCalls (\<lambda>req rep. Method req = ''POST'')) evs"
    by (rule extendsByE)
  from post have "list_all (onCalls (\<lambda>req rep. Method req \<noteq> ''PUT'')) evs"
    and "list_all (onCalls (\<lambda>req rep. Method req \<noteq> ''GET'')) evs"
    by (auto simp: list_all_iff onCalls_def split: event.splits)
  with w' show ?thesis
    by (intro that [of evs]) (simp_all add: chunkUploads_no_put grantedUrls_no_get)
qed

lemma uploadFile_chunks:
  assumes run: "uploadFile e job w = (ret, job', w')"
    and opened: "os_Open e (fileToUpload job) = Inr f"
  shows "inFileOrder (content f) (nat defaultSize) (pos f) (chunkUploads False (newEvents w w'))"
    and "prefix (map URL (chunkUploads False (newEvents w w'))) (grantedUrls e (newEvents w w'))"
proof -
  have "inFileOrder (content f) (nat defaultSize) (pos f) (chunkUploads False (newEvents w w')) \<and>
      prefix (map URL (chunkUploads False (newEvents w w'))) (grantedUrls e (newEvents w w'))"
    using run
  proof (cases rule: uploadFile_cases)
    case (noFile err)
    with opened show ?thesis by simp
  next
    case (aborted g loopErr f1)
    with opened have loop: "uploadFile_batches e 0 0 job f w = (Some loopErr, job', f1, w')"
      by simp
    from uploadFile_batches_chunks [OF loop] show ?thesis
      by (auto simp: newEvents_def)
  next
    case (finalized g f1 w1 rc)
    with opened have loop: "uploadFile_batches e 0 0 job f w = (None, job', f1, w1)"
      by simp
    from uploadFile_batches_chunks [OF loop] obtain evs
      where w1: "w1 = w @ evs"
        and ord: "inFileOrder (content f) (nat defaultSize) (pos f) (chunkUploads False evs)"
        and pre: "prefix (map URL (chunkUploads False evs)) (grantedUrls e evs)"
      by blast
    from retry_completeUpload_events [OF finalized(3)] obtain evs'
      where w': "w' = w1 @ evs'" and noPut: "\<And>fl. chunkUploads fl evs' = []"
        and noGet: "grantedUrls e evs' = []"
      by blast
    from w1 w' ord pre noPut noGet show ?thesis
      by (simp add: newEvents_def chunkUploads_append grantedUrls_append)
  qed
  then show "inFileOrder (content f) (nat defaultSize) (pos f) (chunkUploads False (newEvents w w'))"
    and "prefix (map URL (chunkUploads False (newEvents w w'))) (grantedUrls e (newEvents w w'))"
    by simp_all
qed


subsection \<open>The first attempts in the order of the file\<close>

text \<open>
  In every run of \<open>uploadFile\<close> on a file opened at offset 0, the first attempts of the
  chunk uploads carry, in order, the successive slices of the content, the \<open>k\<close>-th (from
  0) the bytes from \<open>k * defaultSize\<close> up to \<open>(k + 1) * defaultSize\<close> (fewer when the
  content ends there), never none, and they go, in order and with none left out in between,
  to the signed URLs that the responses of the run have granted.
\<close>

lemma first_attempts_follow_file_order:
  assumes run: "uploadFile e job w = (ret, job', w')"
    and opened: "os_Open e (fileToUpload job) = Inr f"
    and start: "pos f = 0"
  shows "(\<forall>k < length (chunkUploads False (newEvents w w')).
            Body (chunkUploads False (newEvents w w') ! k) = chunkOf (content f) (nat defaultSize) k \<and>
            Body (chunkUploads False (newEvents w w') ! k) \<noteq> []) \<and>
         prefix (map URL (chunkUploads False (newEvents w w'))) (grantedUrls e (newEvents w w'))"
proof (intro conjI allI impI)
  fix k
  assume k: "k < length (chunkUploads False (newEvents w w'))"
  have slice: "take (nat defaultSize) (drop (pos f + k * nat defaultSize) (content f)) =
      chunkOf (content f) (nat defaultSize) k"
    by (simp add: chunkOf_def start)
  from inFileOrder_nth [OF uploadFile_chunks(1) [OF run opened] k]
  show "Body (chunkUploads False (newEvents w w') ! k) = chunkOf (content f) (nat defaultSize) k"
    and "Body (chunkUploads False (newEvents w w') ! k) \<noteq> []"
    unfolding slice by blast+
next
  from uploadFile_chunks(2) [OF run opened]
  show "prefix (map URL (chunkUploads False (newEvents w w'))) (grantedUrls e (newEvents w w'))" .
qed


subsection \<open>A retried chunk upload\<close>

lemma flakyEnv_simps [simp]:
  "GetToken flakyEnv w scope = Inr ''token''"
  "urlError flakyEnv url = None"
  "client_Do flakyEnv = flakyServer"
  "decodeSignedUploadUrls flakyEnv = constDecode ''K'' [''https://s3/part1'']"
  "os_Open flakyEnv path = Inr (exampleFile ''abc'')"
  by (simp_all add: flakyEnv_def)

lemma flakyRun:
  "uploadFile flakyEnv smallJob [] =
     ((\<lparr>ObjectId = [], ResultSize = 0, Location = []\<rparr>, None),
      smallJob\<lparr>uploadKey := ''K''\<rparr>, flakyTrace)"
proof -
  have get: "retry_getSignedUploadUrls flakyEnv smallJob 1 1 [] =
      (Inr \<lparr>UploadKey = ''K'', Urls = [''https://s3/part1'']\<rparr>, take 2 flakyTrace)"
    by (simp add: retry_getSignedUploadUrls_def numeral_3_eq_3 getSignedUploadUrls_eq
        signedUrlsResult_def flakyServer_def constDecode_def flakyTrace_def replyWith_def
        flakyEnv_def isPut_def)
  have put: "retry_uploadChunk flakyEnv ''https://s3/part1'' (''abc'', take 2 flakyTrace) =
      (Inr (), ([], take 5 flakyTrace))"
    by (simp add: retry_uploadChunk_def numeral_3_eq_3 uploadChunk_eq chunkResult_def
        flakyServer_def flakyTrace_def replyWith_def flakyEnv_def time_Sleep_def isPut_def)
  have urls: "uploadFile_urls flakyEnv [''https://s3/part1''] (exampleFile ''abc'') (take 2 flakyTrace) =
      (None, (exampleFile ''abc'')\<lparr>pos := 3\<rparr>, take 5 flakyTrace)"
    by (simp add: file_Read_def exampleFile_def defaultSize_def megaByte_def put Let_def
        numeral_3_eq_3)
  have loop: "uploadFile_batches flakyEnv 0 0 smallJob (exampleFile ''abc'') [] =
      (None, smallJob\<lparr>uploadKey := ''K''\<rparr>, (exampleFile ''abc'')\<lparr>pos := 3\<rparr>, take 5 flakyTrace)"
    by (simp add: uploadFile_batches_step [of 0 smallJob] uploadFile_batches_done
        smallJob_def [THEN arg_cong, of numberOfBatches] getParts_def maxParts_def
        smallJob_def [THEN arg_cong, of totalParts] get urls del: uploadFile_urls.simps)
  have final: "retry_completeUpload flakyEnv (smallJob\<lparr>uploadKey := ''K''\<rparr>) (take 5 flakyTrace) =
      (Inr \<lparr>ObjectId = [], ResultSize = 0, Location = []\<rparr>, flakyTrace)"
    by (simp add: retry_completeUpload_def numeral_3_eq_3 completeUpload_eq completeResult_def
        flakyServer_def flakyTrace_def replyWith_def completeRequest_def smallJob_def flakyEnv_def
        isPut_def)
  show ?thesis
    by (simp add: uploadFile_def Let_def loop final)
qed

text \<open>
  C5. The job is the one \<open>newUploadJob\<close> makes for the three-byte file, whose chunk 0 is
  \<open>abc\<close>; the server answers the first \<open>PUT\<close> with status 500 and everything else with
  status 200. The first attempt sends \<open>abc\<close> and leaves the buffer empty, the retry sends
  that buffer, and the server accepts it: the run goes on to the finalize request and
  \<open>uploadFile\<close> returns its result and no error, but the only upload that the server has
  accepted for the part carries no byte, with content length 0, not the bytes of chunk 0.
\<close>

theorem retried_chunk_is_transferred_empty:
  "newUploadJob flakyEnv exampleApi ''bucket'' ''object'' ''small.bin'' = (smallJob, None) \<and>
   os_Open flakyEnv (fileToUpload smallJob) = Inr (exampleFile ''abc'') \<and>
   chunkOf (content (exampleFile ''abc'')) (nat defaultSize) 0 = ''abc'' \<and>
   uploadFile flakyEnv smallJob [] =
     ((\<lparr>ObjectId = [], ResultSize = 0, Location = []\<rparr>, None),
      smallJob\<lparr>uploadKey := ''K''\<rparr>, flakyTrace) \<and>
   map URL (acceptedUploads flakyTrace) = [''https://s3/part1''] \<and>
   map Body (acceptedUploads flakyTrace) = [[]] \<and>
   map ContentLength (acceptedUploads flakyTrace) = [0]"
proof -
  have job: "newUploadJob flakyEnv exampleApi ''bucket'' ''object'' ''small.bin'' = (smallJob, None)"
    by (simp add: newUploadJob_def flakyEnv_def exampleEnv_def smallJob_def Let_def
        minutesExpiration_const_def defaultSize_def megaByte_def maxParts_def signed_divide_int_def)
  have chunk: "chunkOf (content (exampleFile ''abc'')) (nat defaultSize) 0 = ''abc''"
    by (simp add: chunkOf_def exampleFile_def defaultSize_def megaByte_def)
  have accepted: "acceptedUploads flakyTrace = [chunkRequest ''https://s3/part1'' []]"
    by (simp add: flakyTrace_def signedUrlsRequest_def chunkRequest_def completeRequest_def
        chunkResult_def replyWith_def)
  from job chunk flakyRun accepted show ?thesis
    by simp
qed

end
